theory Spec2Isabelle
  imports Main
begin

section \<open>Grouping specifications of the chart data layer (pvc.data.GroupingSpec)\<close>

text \<open>
  A shallow embedding of \<^verbatim>\<open>src/pvc/data/GroupingSpec.js\<close>: the three classes
  \<^verbatim>\<open>GroupingDimensionSpec\<close>, \<^verbatim>\<open>GroupingLevelSpec\<close> and \<^verbatim>\<open>GroupingSpec\<close>, and the
  static parser \<^verbatim>\<open>GroupingSpec.parse\<close>.

  JavaScript property names repeat across the classes (\<^verbatim>\<open>name\<close>, \<^verbatim>\<open>id\<close>, \<^verbatim>\<open>type\<close>,
  \<^verbatim>\<open>depth\<close>, ...), so every record field carries the class as a prefix:
  \<open>type_\<close> for a dimension type, \<open>dim_\<close> for a \<^verbatim>\<open>GroupingDimensionSpec\<close>,
  \<open>level_\<close> for a \<^verbatim>\<open>GroupingLevelSpec\<close>; the fields of \<^verbatim>\<open>GroupingSpec\<close> keep
  their names where they are unique. A thrown exception is the \<open>Inl\<close> branch of a sum.
\<close>

subsection \<open>Errors\<close>

text \<open>
  \<^verbatim>\<open>def.fail.argumentRequired(name)\<close> and \<^verbatim>\<open>def.fail.argumentInvalid(name, text)\<close>
  throw; \<open>TypeError\<close> is what the JavaScript engine throws on a property access or a call
  on \<^verbatim>\<open>undefined\<close>; \<open>OtherError\<close> stands for whatever a collaborator throws.
\<close>

datatype error =
    ArgumentRequired string
  | ArgumentInvalid string string
  | TypeError
  | OtherError string

subsection \<open>The collaborators: atoms, datums, dimension types, complex types\<close>

text \<open>
  An atom is used through \<^verbatim>\<open>atom.globalKey()\<close> only: the field \<open>globalKey\<close> is the
  outcome of that call (\<open>Inl\<close> when the call throws, as it does on an object with no
  such method). A datum is used through \<^verbatim>\<open>datum.atoms[dimName]\<close> only; a missing
  property reads as \<^verbatim>\<open>undefined\<close>, here \<open>None\<close>.
\<close>

record 'v Atom =
  atom_value :: 'v
  globalKey :: "error + string"

record 'v Datum =
  atoms :: "string \<rightharpoonup> 'v Atom"

text \<open>
  A comparer is a JavaScript function of two atoms; it receives \<^verbatim>\<open>undefined\<close> for an
  atom that the datum lacks, and it may throw.
\<close>

type_synonym 'v comparer = "'v Atom option \<Rightarrow> 'v Atom option \<Rightarrow> error + int"

record 'v DimensionType =
  type_name :: string
  type_isDiscrete :: bool
  atomComparer :: "bool \<Rightarrow> 'v comparer"

record 'v ComplexType =
  type_dimensions :: "string \<Rightarrow> error + 'v DimensionType"

subsection \<open>GroupingDimensionSpec\<close>

record 'v GroupingDimensionSpec =
  dim_name :: string
  dim_reverse :: bool
  dim_type :: "'v DimensionType"
  dim_comparer :: "'v comparer"
  dim_id :: string

text \<open>The constructor (\<^verbatim>\<open>.init(function(dimType, reverse)\<close>, lines 260-266).\<close>

definition new_GroupingDimensionSpec ::
  "'v DimensionType \<Rightarrow> bool \<Rightarrow> 'v GroupingDimensionSpec" where
  "new_GroupingDimensionSpec dimType reverse =
     \<lparr> dim_name = type_name dimType,
       dim_reverse = reverse,
       dim_type = dimType,
       dim_comparer = atomComparer dimType reverse,
       dim_id = type_name dimType @ '':'' @ (if reverse then ''0'' else ''1'') \<rparr>"

text \<open>
  \<^verbatim>\<open>compareDatums\<close> (lines 268-280). The source tests the result against zero and
  returns zero otherwise; the test is kept.
\<close>

definition compareDatums ::
  "'v GroupingDimensionSpec \<Rightarrow> 'v Datum \<Rightarrow> 'v Datum \<Rightarrow> error + int" where
  "compareDatums this a b =
     (case dim_comparer this (atoms a (dim_name this)) (atoms b (dim_name this)) of
        Inl e \<Rightarrow> Inl e
      | Inr result \<Rightarrow> if result \<noteq> 0 then Inr result else Inr 0)"

subsection \<open>GroupingLevelSpec\<close>

text \<open>
  The field \<^verbatim>\<open>comparer\<close> of a level is the closure
  \<^verbatim>\<open>function(a, b){ return me.compare(a, b); }\<close>; it is \<open>compare\<close> below applied to the
  level, and is not stored in the record.
\<close>

record 'v GroupingLevelSpec =
  level_dimensions :: "'v GroupingDimensionSpec list"
  level_id :: string
  level_depth :: nat

text \<open>\<^verbatim>\<open>Array.prototype.join\<close> on an array of strings.\<close>

fun join :: "string \<Rightarrow> string list \<Rightarrow> string" where
  "join sep [] = []"
| "join sep [x] = x"
| "join sep (x # y # ys) = x @ sep @ join sep (y # ys)"

text \<open>The constructor (lines 213-228).\<close>

definition new_GroupingLevelSpec ::
  "'v GroupingDimensionSpec list \<Rightarrow> 'v GroupingLevelSpec" where
  "new_GroupingLevelSpec dimSpecs =
     \<lparr> level_dimensions = dimSpecs,
       level_id = join '','' (map dim_id dimSpecs),
       level_depth = length dimSpecs \<rparr>"

text \<open>
  \<^verbatim>\<open>compare\<close> (lines 230-239): the loop \<^verbatim>\<open>for(i = 0, D = this.depth; i < D; i++)\<close>,
  from index \<open>i\<close>. Reading \<^verbatim>\<open>this.dimensions[i]\<close> beyond the array gives
  \<^verbatim>\<open>undefined\<close>, and the call of \<^verbatim>\<open>compareDatums\<close> on it throws.
\<close>

function compare_loop ::
  "'v GroupingDimensionSpec list \<Rightarrow> nat \<Rightarrow> nat \<Rightarrow> 'v Datum \<Rightarrow> 'v Datum \<Rightarrow> error + int" where
  "compare_loop dims D i a b =
     (if i < D then
        (if i < length dims then
           (case compareDatums (dims ! i) a b of
              Inl e \<Rightarrow> Inl e
            | Inr result \<Rightarrow>
                if result \<noteq> 0 then Inr result else compare_loop dims D (Suc i) a b)
         else Inl TypeError)
      else Inr 0)"
  by pat_completeness auto
termination
  by (relation "measure (\<lambda>(dims, D, i, a, b). D - i)") auto

declare compare_loop.simps [simp del]

definition compare :: "'v GroupingLevelSpec \<Rightarrow> 'v Datum \<Rightarrow> 'v Datum \<Rightarrow> error + int" where
  "compare this a b = compare_loop (level_dimensions this) (level_depth this) 0 a b"

text \<open>
  \<^verbatim>\<open>key\<close> (lines 241-256). The atom is pushed before \<^verbatim>\<open>atom.globalKey()\<close> is called,
  and that call throws on \<^verbatim>\<open>undefined\<close>; the arrays are lost with the exception.
\<close>

record 'v KeyResult =
  key_string :: string
  key_atoms :: "'v Atom list"

function key_loop ::
  "'v GroupingDimensionSpec list \<Rightarrow> nat \<Rightarrow> nat \<Rightarrow> 'v Datum \<Rightarrow>
     string list \<Rightarrow> 'v Atom list \<Rightarrow> error + 'v KeyResult" where
  "key_loop dims D i datum keys as =
     (if i < D then
        (if i < length dims then
           (case atoms datum (dim_name (dims ! i)) of
              None \<Rightarrow> Inl TypeError
            | Some atom \<Rightarrow>
                (case globalKey atom of
                   Inl e \<Rightarrow> Inl e
                 | Inr k \<Rightarrow> key_loop dims D (Suc i) datum (keys @ [k]) (as @ [atom])))
         else Inl TypeError)
      else Inr \<lparr> key_string = join '','' keys, key_atoms = as \<rparr>)"
  by pat_completeness auto
termination
  by (relation "measure (\<lambda>(dims, D, i, datum, keys, as). D - i)") auto

declare key_loop.simps [simp del]

definition key :: "'v GroupingLevelSpec \<Rightarrow> 'v Datum \<Rightarrow> error + 'v KeyResult" where
  "key this datum = key_loop (level_dimensions this) (level_depth this) 0 datum [] []"

subsection \<open>GroupingSpec objects and the heap\<close>

text \<open>
  \<^verbatim>\<open>GroupingSpec\<close> objects cache derived objects in their private fields
  (\<^verbatim>\<open>_dimNames\<close>, \<^verbatim>\<open>_singleLevelGrouping\<close>, \<^verbatim>\<open>_reverseGrouping\<close>) and are compared by
  reference, so they live in a heap: a list of objects, a reference being an index.
  \<^verbatim>\<open>new\<close> appends. A method takes the heap and the reference \<open>this\<close> of an object in
  it (\<open>this < length h\<close>), and returns its result with the heap it leaves. Levels and
  dimension specs are never mutated and are plain values.
\<close>

type_synonym ref = nat

record 'v GroupingSpec =
  spec_type :: "'v ComplexType"
  hasCompositeLevels :: bool
  levels :: "'v GroupingLevelSpec list"
  depth :: nat
  isSingleLevel :: bool
  isSingleDimension :: bool
  firstDimension :: "'v GroupingDimensionSpec option"
  flatteningMode :: "string option"
  flattenRootLabel :: string
  spec_id :: string
  cached_dimNames :: "string list option"
  cached_singleLevelGrouping :: "(bool \<rightharpoonup> ref) option"
  cached_reverseGrouping :: "ref option"

type_synonym 'v heap = "'v GroupingSpec list"

text \<open>
  Keyword arguments, read with \<^verbatim>\<open>def.get(keyArgs, name)\<close>: an absent argument
  object, or an absent property, is \<open>None\<close> (\<open>False\<close> for \<^verbatim>\<open>reverse\<close>, whose default
  is \<^verbatim>\<open>false\<close>).
\<close>

record KeyArgs =
  kw_flatteningMode :: "string option"
  kw_flattenRootLabel :: "string option"
  kw_reverse :: bool

definition no_keyArgs :: KeyArgs where
  "no_keyArgs = \<lparr> kw_flatteningMode = None, kw_flattenRootLabel = None, kw_reverse = False \<rparr>"

text \<open>\<^verbatim>\<open>x || d\<close> on an optional string: \<^verbatim>\<open>undefined\<close>, \<^verbatim>\<open>null\<close> and \<^verbatim>\<open>''\<close> are falsy.\<close>

definition truthy_string :: "string option \<Rightarrow> string option" where
  "truthy_string x = (case x of None \<Rightarrow> None | Some s \<Rightarrow> if s = [] then None else Some s)"

definition string_or_empty :: "string option \<Rightarrow> string" where
  "string_or_empty x = (case x of None \<Rightarrow> [] | Some s \<Rightarrow> s)"

text \<open>
  The constructor body (lines 39-75). \<^verbatim>\<open>levelSpecs\<close> and \<^verbatim>\<open>complexType\<close> may be absent.
  The query \<^verbatim>\<open>where(...).select(...).array()\<close> is one pass over the levels: the filter,
  the ids, and the flag \<^verbatim>\<open>hasCompositeLevels\<close>, set at the first level with more than
  one dimension.
\<close>

definition GroupingSpec_init ::
  "'v GroupingLevelSpec list option \<Rightarrow> 'v ComplexType option \<Rightarrow> KeyArgs \<Rightarrow>
     error + 'v GroupingSpec" where
  "GroupingSpec_init levelSpecs complexType keyArgs =
     (case levelSpecs of
        None \<Rightarrow> Inl (ArgumentRequired ''levelSpecs'')
      | Some ls \<Rightarrow>
     (case complexType of
        None \<Rightarrow> Inl (ArgumentRequired ''complexType'')
      | Some ty \<Rightarrow>
          let retained = filter (\<lambda>levelSpec. length (level_dimensions levelSpec) > 0) ls;
              ids = map level_id retained;
              composite = fold (\<lambda>levelSpec hc.
                             if \<not> hc \<and> length (level_dimensions levelSpec) > 1 then True else hc)
                            retained False
          in if length retained = 0
             then Inl (ArgumentInvalid ''levelSpecs'' ''Must have at least one element.'')
             else
               let mode = truthy_string (kw_flatteningMode keyArgs);
                   label = string_or_empty (kw_flattenRootLabel keyArgs)
               in Inr \<lparr> spec_type = ty,
                        hasCompositeLevels = composite,
                        levels = retained,
                        depth = length retained,
                        isSingleLevel = (length retained = 1),
                        isSingleDimension = (length retained = 1 \<and> \<not> composite),
                        firstDimension =
                          (if length retained > 0
                           then Some (level_dimensions (retained ! 0) ! 0) else None),
                        flatteningMode = mode,
                        flattenRootLabel = label,
                        spec_id = string_or_empty mode @ ''##'' @ label @ ''##'' @ join ''||'' ids,
                        cached_dimNames = None,
                        cached_singleLevelGrouping = None,
                        cached_reverseGrouping = None \<rparr>))"

text \<open>
  \<^verbatim>\<open>new pvc.data.GroupingSpec(...)\<close>: the new object gets the next reference; when the
  constructor throws, the heap is as before.
\<close>

definition new_GroupingSpec ::
  "'v heap \<Rightarrow> 'v GroupingLevelSpec list option \<Rightarrow> 'v ComplexType option \<Rightarrow> KeyArgs \<Rightarrow>
     (error + ref) \<times> 'v heap" where
  "new_GroupingSpec h levelSpecs complexType keyArgs =
     (case GroupingSpec_init levelSpecs complexType keyArgs of
        Inl e \<Rightarrow> (Inl e, h)
      | Inr obj \<Rightarrow> (Inr (length h), h @ [obj]))"

text \<open>\<^verbatim>\<open>dimensions\<close> (lines 81-84), \<^verbatim>\<open>dimensionNames\<close> (86-94), \<^verbatim>\<open>isDiscrete\<close> (104-106).\<close>

definition dimensions :: "'v GroupingSpec \<Rightarrow> 'v GroupingDimensionSpec list" where
  "dimensions this = concat (map level_dimensions (levels this))"

definition dimensionNames :: "'v heap \<Rightarrow> ref \<Rightarrow> string list \<times> 'v heap" where
  "dimensionNames h this =
     (case cached_dimNames (h ! this) of
        Some names \<Rightarrow> (names, h)
      | None \<Rightarrow>
          let names = map dim_name (dimensions (h ! this))
          in (names, h[this := (h ! this)\<lparr> cached_dimNames := Some names \<rparr>]))"

definition isDiscrete :: "'v GroupingSpec \<Rightarrow> error + bool" where
  "isDiscrete this =
     (if \<not> isSingleDimension this then Inr True
      else (case firstDimension this of
              None \<Rightarrow> Inl TypeError
            | Some d \<Rightarrow> Inr (type_isDiscrete (dim_type d))))"

text \<open>\<^verbatim>\<open>reversed\<close> (lines 189-209).\<close>

definition reversed_levels :: "'v GroupingSpec \<Rightarrow> 'v GroupingLevelSpec list" where
  "reversed_levels this =
     map (\<lambda>levelSpec.
            new_GroupingLevelSpec
              (map (\<lambda>dimSpec. new_GroupingDimensionSpec (dim_type dimSpec) (\<not> dim_reverse dimSpec))
                   (level_dimensions levelSpec)))
         (levels this)"

definition reversed :: "'v heap \<Rightarrow> ref \<Rightarrow> (error + ref) \<times> 'v heap" where
  "reversed h this =
     (case cached_reverseGrouping (h ! this) of
        Some reverseGrouping \<Rightarrow> (Inr reverseGrouping, h)
      | None \<Rightarrow>
          (case new_GroupingSpec h (Some (reversed_levels (h ! this))) (Some (spec_type (h ! this)))
                  \<lparr> kw_flatteningMode = flatteningMode (h ! this),
                    kw_flattenRootLabel = None, kw_reverse = False \<rparr> of
             (Inl e, h') \<Rightarrow> (Inl e, h')
           | (Inr reverseGrouping, h') \<Rightarrow>
               (Inr reverseGrouping,
                h'[this := (h' ! this)\<lparr> cached_reverseGrouping := Some reverseGrouping \<rparr>])))"

text \<open>
  \<^verbatim>\<open>singleLevelGrouping\<close> (lines 157-182). The cache object is created before it is
  read, also when the constructor throws afterwards.
\<close>

definition singleLevel_dimSpecs :: "'v GroupingSpec \<Rightarrow> bool \<Rightarrow> 'v GroupingDimensionSpec list" where
  "singleLevel_dimSpecs this reverse =
     map (\<lambda>dimSpec.
            if reverse then new_GroupingDimensionSpec (dim_type dimSpec) (\<not> dim_reverse dimSpec)
            else dimSpec)
         (dimensions this)"

definition singleLevelGrouping :: "'v heap \<Rightarrow> ref \<Rightarrow> KeyArgs \<Rightarrow> (error + ref) \<times> 'v heap" where
  "singleLevelGrouping h this keyArgs =
     (let reverse = kw_reverse keyArgs in
      if isSingleLevel (h ! this) \<and> \<not> reverse then (Inr this, h)
      else
        let cache = (case cached_singleLevelGrouping (h ! this) of
                       None \<Rightarrow> Map.empty | Some c \<Rightarrow> c);
            h1 = h[this := (h ! this)\<lparr> cached_singleLevelGrouping := Some cache \<rparr>]
        in (case cache reverse of
              Some singleLevel \<Rightarrow> (Inr singleLevel, h1)
            | None \<Rightarrow>
                let levelSpec = new_GroupingLevelSpec (singleLevel_dimSpecs (h1 ! this) reverse)
                in (case new_GroupingSpec h1 (Some [levelSpec]) (Some (spec_type (h1 ! this)))
                          \<lparr> kw_flatteningMode = flatteningMode (h1 ! this),
                            kw_flattenRootLabel = None, kw_reverse = False \<rparr> of
                      (Inl e, h2) \<Rightarrow> (Inl e, h2)
                    | (Inr singleLevel, h2) \<Rightarrow>
                        (Inr singleLevel,
                         h2[this := (h2 ! this)\<lparr> cached_singleLevelGrouping :=
                                                   Some (cache(reverse \<mapsto> singleLevel)) \<rparr>]))))"

text \<open>\<^verbatim>\<open>ensure\<close> (lines 119-143).\<close>

definition ensure :: "'v heap \<Rightarrow> ref \<Rightarrow> KeyArgs \<Rightarrow> (error + ref) \<times> 'v heap" where
  "ensure h this keyArgs =
     (let reverse_last = (\<lambda>(h', grouping).
            if kw_reverse keyArgs then reversed h' grouping else (Inr grouping, h'))
      in case truthy_string (kw_flatteningMode keyArgs) of
           None \<Rightarrow> reverse_last (h, this)
         | Some mode \<Rightarrow>
             if mode = ''singleLevel'' then singleLevelGrouping h this keyArgs
             else
               let label = string_or_empty (kw_flattenRootLabel keyArgs)
               in if flatteningMode (h ! this) \<noteq> Some mode \<or> flattenRootLabel (h ! this) \<noteq> label
                  then (case new_GroupingSpec h (Some (levels (h ! this))) (Some (spec_type (h ! this)))
                               \<lparr> kw_flatteningMode = Some mode,
                                 kw_flattenRootLabel = Some label, kw_reverse = False \<rparr> of
                          (Inl e, h') \<Rightarrow> (Inl e, h')
                        | (Inr grouping, h') \<Rightarrow> reverse_last (h', grouping))
                  else reverse_last (h, this))"

subsection \<open>The textual grammar\<close>

text \<open>
  Strings are lists of 8-bit code units. In that range the class \<^verbatim>\<open>\s\<close> of a JavaScript
  regular expression is tab, line feed, vertical tab, form feed, carriage return, space
  and the no-break space; \<^verbatim>\<open>.\<close> is every code unit but line feed and carriage return.
\<close>

definition isSpace :: "char \<Rightarrow> bool" where
  "isSpace c = ((of_char c :: nat) \<in> {9, 10, 11, 12, 13, 32, 160})"

definition isLineTerminator :: "char \<Rightarrow> bool" where
  "isLineTerminator c = ((of_char c :: nat) \<in> {10, 13})"

text \<open>\<^verbatim>\<open>String.prototype.toLowerCase\<close>, on one code unit below 256.\<close>

definition toLowerCase :: "char \<Rightarrow> char" where
  "toLowerCase c =
     (let n = (of_char c :: nat)
      in if (65 \<le> n \<and> n \<le> 90) \<or> (192 \<le> n \<and> n \<le> 222 \<and> n \<noteq> 215) then char_of (n + 32) else c)"

text \<open>
  \<^verbatim>\<open>text.split(/\s*c\s*/)\<close> for a separator character \<open>c\<close> that is not white space
  (\<^verbatim>\<open>,\<close> and \<^verbatim>\<open>|\<close>). The separator matches at a position when the white space from
  there on is followed by \<open>c\<close>, and then extends over the white space after \<open>c\<close>.
  \<open>split_loop c cur s\<close> is the scan with \<open>cur\<close> the text since the last separator and
  \<open>s\<close> the text not yet read; at the end the last piece is pushed, also when empty.
\<close>

definition sep_matches :: "char \<Rightarrow> string \<Rightarrow> bool" where
  "sep_matches c s = (case dropWhile isSpace s of [] \<Rightarrow> False | x # _ \<Rightarrow> x = c)"

definition after_sep :: "string \<Rightarrow> string" where
  "after_sep s = dropWhile isSpace (tl (dropWhile isSpace s))"

lemma after_sep_shorter: "sep_matches c s \<Longrightarrow> length (after_sep s) < length s"
proof -
  assume m: "sep_matches c s"
  then obtain x r where d: "dropWhile isSpace s = x # r"
    by (auto simp: sep_matches_def split: list.splits)
  have "length (dropWhile isSpace r) \<le> length r"
    by (rule length_dropWhile_le)
  moreover have "length (x # r) \<le> length s"
    unfolding d [symmetric] by (rule length_dropWhile_le)
  ultimately show ?thesis
    by (simp add: after_sep_def d)
qed

function split_loop :: "char \<Rightarrow> string \<Rightarrow> string \<Rightarrow> string list" where
  "split_loop c cur s =
     (if sep_matches c s then cur # split_loop c [] (after_sep s)
      else (case s of [] \<Rightarrow> [cur] | y # ys \<Rightarrow> split_loop c (cur @ [y]) ys))"
  by pat_completeness auto
termination
  by (relation "measure (\<lambda>(c, cur, s). length s)") (auto simp: after_sep_shorter)

declare split_loop.simps [simp del]

definition split :: "char \<Rightarrow> string \<Rightarrow> string list" where
  "split c s = split_loop c [] s"

text \<open>
  \<^verbatim>\<open>groupSpec_matchDimSpec = /^\s*(.+?)(?:\s+(asc|desc))?\s*$/i\<close> (line 367), as the
  backtracking search that \<^verbatim>\<open>exec\<close> performs. \<open>match_order_tail\<close> matches
  \<^verbatim>\<open>(?:\s+(asc|desc))?\s*$\<close> against the text after the name: the group first, then
  without it; the result is the captured order token, if any.
\<close>

definition ci_matches :: "string \<Rightarrow> string \<Rightarrow> bool" where
  "ci_matches word s = (length s = length word \<and> map toLowerCase s = word)"

definition match_order_tail :: "string \<Rightarrow> string option option" where
  "match_order_tail rest =
     (let ws = takeWhile isSpace rest; r = dropWhile isSpace rest
      in if ws \<noteq> [] \<and> ci_matches ''asc'' (take 3 r) \<and> list_all isSpace (drop 3 r)
         then Some (Some (take 3 r))
         else if ws \<noteq> [] \<and> ci_matches ''desc'' (take 4 r) \<and> list_all isSpace (drop 4 r)
         then Some (Some (take 4 r))
         else if r = [] then Some None
         else None)"

text \<open>
  One attempt: \<^verbatim>\<open>^\s*\<close> has taken \<open>i\<close> code units and the lazy \<^verbatim>\<open>(.+?)\<close> has taken \<open>j\<close>.
\<close>

definition match_at :: "string \<Rightarrow> nat \<Rightarrow> nat \<Rightarrow> (string \<times> string option) option" where
  "match_at s i j =
     (let name = take j (drop i s)
      in if list_all (\<lambda>c. \<not> isLineTerminator c) name
         then (case match_order_tail (drop (i + j) s) of
                 None \<Rightarrow> None
               | Some order \<Rightarrow> Some (name, order))
         else None)"

fun first_some :: "('a \<Rightarrow> 'b option) \<Rightarrow> 'a list \<Rightarrow> 'b option" where
  "first_some f [] = None"
| "first_some f (x # xs) = (case f x of Some y \<Rightarrow> Some y | None \<Rightarrow> first_some f xs)"

text \<open>
  The greedy \<^verbatim>\<open>^\s*\<close> tries the longest run of leading white space first, then shorter
  ones down to none; for each, the lazy name tries one code unit first, then more.
  The result is the pair of captures (\<^verbatim>\<open>match[1]\<close>, \<^verbatim>\<open>match[2]\<close>), or \<open>None\<close> for
  \<^verbatim>\<open>null\<close>.
\<close>

definition groupSpec_matchDimSpec :: "string \<Rightarrow> (string \<times> string option) option" where
  "groupSpec_matchDimSpec s =
     first_some
       (\<lambda>i. first_some (\<lambda>j. match_at s i j) [1 ..< Suc (length s - i)])
       (rev [0 ..< Suc (length (takeWhile isSpace s))])"

text \<open>
  The body of the \<^verbatim>\<open>select\<close> in \<^verbatim>\<open>groupSpec_parseGroupingLevel\<close> (lines 378-387), for
  one dimension fragment; \<^verbatim>\<open>type.dimensions(name)\<close> may throw.
\<close>

definition parse_dimSpec :: "'v ComplexType \<Rightarrow> string \<Rightarrow> error + 'v GroupingDimensionSpec" where
  "parse_dimSpec type dimSpecText =
     (case groupSpec_matchDimSpec dimSpecText of
        None \<Rightarrow>
          Inl (ArgumentInvalid ''groupLevelText''
                 (''Invalid grouping level syntax '' @ [CHR 0x27] @ dimSpecText @ [CHR 0x27] @ ''.''))
      | Some (name, order_token) \<Rightarrow>
          (case type_dimensions type name of
             Inl e \<Rightarrow> Inl e
           | Inr dimType \<Rightarrow>
               let order = map toLowerCase (string_or_empty order_token);
                   reverse = (order = ''desc'')
               in Inr (new_GroupingDimensionSpec dimType reverse)))"

text \<open>
  A lazy query is consumed in order, and the first exception ends the enumeration:
  \<open>map_result f xs\<close> is the array of the results, or the first error.
\<close>

fun map_result :: "('a \<Rightarrow> error + 'b) \<Rightarrow> 'a list \<Rightarrow> error + 'b list" where
  "map_result f [] = Inr []"
| "map_result f (x # xs) =
     (case f x of
        Inl e \<Rightarrow> Inl e
      | Inr y \<Rightarrow> (case map_result f xs of Inl e \<Rightarrow> Inl e | Inr ys \<Rightarrow> Inr (y # ys)))"

text \<open>
  An element of the array form of a specification is a string or something else
  (\<^verbatim>\<open>def.isString\<close> decides).
\<close>

datatype levelText = LevelString string | NotAString

text \<open>
  \<^verbatim>\<open>groupSpec_parseGroupingLevel\<close> (lines 373-388); \<^verbatim>\<open>where(def.truthy)\<close> drops the
  empty fragments. The result is the array that \<^verbatim>\<open>new GroupingLevelSpec\<close> makes of the
  query when it enumerates it.
\<close>

definition groupSpec_parseGroupingLevel ::
  "levelText \<Rightarrow> 'v ComplexType \<Rightarrow> error + 'v GroupingDimensionSpec list" where
  "groupSpec_parseGroupingLevel groupLevelText type =
     (case groupLevelText of
        NotAString \<Rightarrow> Inl (ArgumentInvalid ''groupLevelText'' ''Invalid grouping specification.'')
      | LevelString text \<Rightarrow>
          map_result (parse_dimSpec type) (filter (\<lambda>f. f \<noteq> []) (split (CHR ''|'') text)))"

text \<open>
  \<^verbatim>\<open>GroupingSpec.parse\<close> (lines 304-322). The specification text is absent, a string
  or an array; the empty string is falsy, an array is not. The levels are built while
  the constructor enumerates the query, after its own two argument checks, which pass
  here.
\<close>

datatype specText = SpecString string | SpecArray "levelText list"

definition parse_level :: "'v ComplexType \<Rightarrow> levelText \<Rightarrow> error + 'v GroupingLevelSpec" where
  "parse_level type levelText =
     (case groupSpec_parseGroupingLevel levelText type of
        Inl e \<Rightarrow> Inl e
      | Inr dimSpecs \<Rightarrow> Inr (new_GroupingLevelSpec dimSpecs))"

definition parse ::
  "'v heap \<Rightarrow> specText option \<Rightarrow> 'v ComplexType option \<Rightarrow> (error + ref) \<times> 'v heap" where
  "parse h specText type =
     (case specText of
        None \<Rightarrow> (Inl (ArgumentRequired ''groupingSpecText''), h)
      | Some text \<Rightarrow>
          if text = SpecString [] then (Inl (ArgumentRequired ''groupingSpecText''), h)
          else (case type of
                  None \<Rightarrow> (Inl (ArgumentRequired ''type''), h)
                | Some ty \<Rightarrow>
                    let levels = (case text of
                                    SpecArray xs \<Rightarrow> xs
                                  | SpecString s \<Rightarrow> map LevelString (split (CHR '','') s))
                    in (case map_result (parse_level ty) levels of
                          Inl e \<Rightarrow> (Inl e, h)
                        | Inr levelSpecs \<Rightarrow>
                            new_GroupingSpec h (Some levelSpecs) (Some ty) no_keyArgs)))"

subsection \<open>Example collaborators\<close>

text \<open>
  Numeric dimensions in the manner of the library's own comparable dimensions: the
  comparer answers 0 on the same atom and otherwise reads \<^verbatim>\<open>a.value\<close> and
  \<^verbatim>\<open>b.value\<close>, which throws on \<^verbatim>\<open>undefined\<close>, and compares them, the other way round
  when reversed. The atoms of a dimension are taken to be interned, one atom for each
  value, so that different atoms never compare as equal. They serve as the concrete
  inputs below.
\<close>

definition compare_numbers :: "bool \<Rightarrow> int comparer" where
  "compare_numbers reverse x y =
     (case (x, y) of
        (Some a, Some b) \<Rightarrow>
          Inr (if a = b then 0
               else if (atom_value a < atom_value b) \<noteq> reverse then - 1 else 1)
      | _ \<Rightarrow> Inl TypeError)"

definition number_dimension :: "string \<Rightarrow> int DimensionType" where
  "number_dimension n =
     \<lparr> type_name = n, type_isDiscrete = False, atomComparer = compare_numbers \<rparr>"

text \<open>A dimension type whose comparer, an option of the caller, is not a comparison.\<close>

definition skewed_dimension :: "string \<Rightarrow> int DimensionType" where
  "skewed_dimension n =
     \<lparr> type_name = n, type_isDiscrete = False, atomComparer = (\<lambda>reverse x y. Inr 1) \<rparr>"

definition example_type :: "int ComplexType" where
  "example_type =
     \<lparr> type_dimensions = (\<lambda>n.
         if n = ''series1'' \<or> n = ''series2'' \<or> n = ''category''
         then Inr (number_dimension n)
         else Inl (OtherError n)) \<rparr>"

definition number_atom :: "int \<Rightarrow> string \<Rightarrow> int Atom" where
  "number_atom v k = \<lparr> atom_value = v, globalKey = Inr k \<rparr>"

definition datum_1_5 :: "int Datum" where
  "datum_1_5 = \<lparr> atoms = [''series1'' \<mapsto> number_atom 1 ''1'', ''series2'' \<mapsto> number_atom 5 ''5''] \<rparr>"

definition datum_1_7 :: "int Datum" where
  "datum_1_7 = \<lparr> atoms = [''series1'' \<mapsto> number_atom 1 ''1'', ''series2'' \<mapsto> number_atom 7 ''7''] \<rparr>"

definition datum_1_5_9 :: "int Datum" where
  "datum_1_5_9 =
     \<lparr> atoms = [''series1'' \<mapsto> number_atom 1 ''1'', ''series2'' \<mapsto> number_atom 5 ''5'',
                ''category'' \<mapsto> number_atom 9 ''9''] \<rparr>"

definition datum_1 :: "int Datum" where
  "datum_1 = \<lparr> atoms = [''series1'' \<mapsto> number_atom 1 ''1''] \<rparr>"

definition datum_2 :: "int Datum" where
  "datum_2 = \<lparr> atoms = [''series1'' \<mapsto> number_atom 2 ''2''] \<rparr>"

definition series_dimensions :: "int GroupingDimensionSpec list" where
  "series_dimensions =
     [new_GroupingDimensionSpec (number_dimension ''series1'') False,
      new_GroupingDimensionSpec (number_dimension ''series2'') True]"

definition series_level :: "int GroupingLevelSpec" where
  "series_level = new_GroupingLevelSpec series_dimensions"

definition category_level :: "int GroupingLevelSpec" where
  "category_level =
     new_GroupingLevelSpec [new_GroupingDimensionSpec (number_dimension ''category'') False]"

text \<open>Three levels, the second without dimensions.\<close>

definition example_levels :: "int GroupingLevelSpec list" where
  "example_levels = [series_level, new_GroupingLevelSpec [], category_level]"

definition skewed_level :: "int GroupingLevelSpec" where
  "skewed_level =
     new_GroupingLevelSpec [new_GroupingDimensionSpec (skewed_dimension ''series1'') False]"

text \<open>A heap with one grouping specification, built from the three example levels.\<close>

definition example_heap :: "int heap" where
  "example_heap =
     snd (new_GroupingSpec [] (Some example_levels) (Some example_type) no_keyArgs)"

subsection \<open>Auxiliary definitions of the proofs\<close>

text \<open>The loop of \<open>compare\<close> by recursion on the dimensions still to be compared.\<close>

fun compare_list ::
  "'v GroupingDimensionSpec list \<Rightarrow> 'v Datum \<Rightarrow> 'v Datum \<Rightarrow> error + int" where
  "compare_list [] a b = Inr 0"
| "compare_list (d # ds) a b =
     (if compareDatums d a b = Inr 0 then compare_list ds a b else compareDatums d a b)"

text \<open>The loop of \<open>key\<close> in the same way: the keys and atoms of the dimensions still to be read.\<close>

fun key_list ::
  "'v GroupingDimensionSpec list \<Rightarrow> 'v Datum \<Rightarrow> error + (string list \<times> 'v Atom list)" where
  "key_list [] datum = Inr ([], [])"
| "key_list (d # ds) datum =
     (case atoms datum (dim_name d) of
        None \<Rightarrow> Inl TypeError
      | Some atom \<Rightarrow>
          (case globalKey atom of
             Inl e \<Rightarrow> Inl e
           | Inr k \<Rightarrow>
               (case key_list ds datum of
                  Inl e \<Rightarrow> Inl e
                | Inr (ks, as) \<Rightarrow> Inr (k # ks, atom # as))))"

text \<open>
  A dimension's global key is a faithful equality witness for its comparer: atoms that
  the comparer ranks equal have the same global key.
\<close>

definition faithful_globalKey :: "'v comparer \<Rightarrow> bool" where
  "faithful_globalKey c = (\<forall>x y. c (Some x) (Some y) = Inr 0 \<longrightarrow> globalKey x = globalKey y)"

text \<open>
  The object that the constructor leaves for the retained levels \<open>ls\<close>, the flattening
  mode \<open>mode\<close> and the root label \<open>label\<close>, in one term.
\<close>

definition constructed_spec ::
  "'v ComplexType \<Rightarrow> 'v GroupingLevelSpec list \<Rightarrow> string option \<Rightarrow> string \<Rightarrow> 'v GroupingSpec" where
  "constructed_spec ty ls mode label =
     \<lparr> spec_type = ty,
       hasCompositeLevels = (\<exists>l\<in>set ls. length (level_dimensions l) > 1),
       levels = ls,
       depth = length ls,
       isSingleLevel = (length ls = 1),
       isSingleDimension = (length ls = 1 \<and> \<not> (\<exists>l\<in>set ls. length (level_dimensions l) > 1)),
       firstDimension = Some (level_dimensions (ls ! 0) ! 0),
       flatteningMode = mode,
       flattenRootLabel = label,
       spec_id = string_or_empty mode @ ''##'' @ label @ ''##'' @ join ''||'' (map level_id ls),
       cached_dimNames = None,
       cached_singleLevelGrouping = None,
       cached_reverseGrouping = None \<rparr>"

text \<open>The dimension specs with every order flag inverted, as both derived variants build them.\<close>

definition reverse_dimensions :: "'v GroupingDimensionSpec list \<Rightarrow> 'v GroupingDimensionSpec list" where
  "reverse_dimensions dims =
     map (\<lambda>dimSpec. new_GroupingDimensionSpec (dim_type dimSpec) (\<not> dim_reverse dimSpec)) dims"

text \<open>
  Well-formed objects. A dimension spec and a level are as their constructors build
  them. A grouping specification is, its caches apart, what its constructor returns on
  its own levels, type and flattening arguments, and its levels are well formed.
\<close>

definition clear_caches :: "'v GroupingSpec \<Rightarrow> 'v GroupingSpec" where
  "clear_caches g =
     g\<lparr> cached_dimNames := None, cached_singleLevelGrouping := None,
        cached_reverseGrouping := None \<rparr>"

definition well_formed_level :: "'v GroupingLevelSpec \<Rightarrow> bool" where
  "well_formed_level l =
     (l = new_GroupingLevelSpec (level_dimensions l) \<and>
      (\<forall>d\<in>set (level_dimensions l). d = new_GroupingDimensionSpec (dim_type d) (dim_reverse d)))"

definition well_formed_spec :: "'v GroupingSpec \<Rightarrow> bool" where
  "well_formed_spec g =
     (GroupingSpec_init (Some (levels g)) (Some (spec_type g))
        \<lparr> kw_flatteningMode = flatteningMode g,
          kw_flattenRootLabel = Some (flattenRootLabel g), kw_reverse = False \<rparr>
        = Inr (clear_caches g) \<and>
      (\<forall>l\<in>set (levels g). well_formed_level l))"

text \<open>
  The objects that \<open>reversed\<close> and \<open>singleLevelGrouping\<close> construct for \<open>g\<close>, as the
  constructor leaves them.
\<close>

definition reversed_spec :: "'v GroupingSpec \<Rightarrow> error + 'v GroupingSpec" where
  "reversed_spec g =
     GroupingSpec_init (Some (reversed_levels g)) (Some (spec_type g))
       \<lparr> kw_flatteningMode = flatteningMode g, kw_flattenRootLabel = None, kw_reverse = False \<rparr>"

definition singleLevel_spec :: "'v GroupingSpec \<Rightarrow> bool \<Rightarrow> error + 'v GroupingSpec" where
  "singleLevel_spec g reverse =
     GroupingSpec_init (Some [new_GroupingLevelSpec (singleLevel_dimSpecs g reverse)])
       (Some (spec_type g))
       \<lparr> kw_flatteningMode = flatteningMode g, kw_flattenRootLabel = None, kw_reverse = False \<rparr>"

text \<open>
  A well-formed heap: every object is well formed, and a cache entry refers to an object
  allocated later than its owner that is, its own caches apart, the object the method
  constructs for the owner.
\<close>

definition cache_entry_ok ::
  "'v heap \<Rightarrow> ref \<Rightarrow> ref \<Rightarrow> error + 'v GroupingSpec \<Rightarrow> bool" where
  "cache_entry_ok h r r' built =
     (r < r' \<and> r' < length h \<and> built = Inr (clear_caches (h ! r')))"

definition well_formed_object :: "'v heap \<Rightarrow> ref \<Rightarrow> bool" where
  "well_formed_object h r =
     (well_formed_spec (h ! r) \<and>
      (\<forall>r'. cached_reverseGrouping (h ! r) = Some r' \<longrightarrow>
            cache_entry_ok h r r' (reversed_spec (h ! r))) \<and>
      (\<forall>c b r'. cached_singleLevelGrouping (h ! r) = Some c \<and> c b = Some r' \<longrightarrow>
            cache_entry_ok h r r' (singleLevel_spec (h ! r) b)))"

definition well_formed_heap :: "'v heap \<Rightarrow> bool" where
  "well_formed_heap h = (\<forall>r<length h. well_formed_object h r)"

text \<open>
  The grammar, written out. A specification text is a list of levels, a level a list of
  dimensions, a dimension a name with an optional order token, or nothing (an empty
  fragment). A name is not empty and has no white space, comma or bar; an order token
  is \<^verbatim>\<open>asc\<close> or \<^verbatim>\<open>desc\<close> in any case. The text is rendered with \<open>e\<close> between name
  and token, a bar between dimensions, and \<open>a\<close>, a comma and \<open>b\<close> between levels.
\<close>

type_synonym dimension_text = "(string \<times> string option) option"

definition valid_name :: "string \<Rightarrow> bool" where
  "valid_name n = (n \<noteq> [] \<and> (\<forall>c\<in>set n. \<not> isSpace c \<and> c \<noteq> CHR '','' \<and> c \<noteq> CHR ''|''))"

definition order_token :: "string \<Rightarrow> bool" where
  "order_token t = (map toLowerCase t = ''asc'' \<or> map toLowerCase t = ''desc'')"

definition well_formed_text :: "dimension_text \<Rightarrow> bool" where
  "well_formed_text d =
     (case d of
        None \<Rightarrow> True
      | Some (name, None) \<Rightarrow> valid_name name
      | Some (name, Some token) \<Rightarrow> valid_name name \<and> order_token token)"

definition render_dimension :: "string \<Rightarrow> dimension_text \<Rightarrow> string" where
  "render_dimension e d =
     (case d of
        None \<Rightarrow> []
      | Some (name, None) \<Rightarrow> name
      | Some (name, Some token) \<Rightarrow> name @ e @ token)"

definition render_level :: "string \<Rightarrow> dimension_text list \<Rightarrow> string" where
  "render_level e ds = join ''|'' (map (render_dimension e) ds)"

definition render_spec :: "string \<Rightarrow> string \<Rightarrow> string \<Rightarrow> dimension_text list list \<Rightarrow> string" where
  "render_spec a b e dss = join (a @ '','' @ b) (map (render_level e) dss)"

text \<open>
  What the text denotes, for dimension types \<open>dt\<close> by name: a dimension is reversed
  exactly when it has an order token that reads \<^verbatim>\<open>desc\<close>; the empty fragments
  denote nothing.
\<close>

definition dimSpec_of ::
  "(string \<Rightarrow> 'v DimensionType) \<Rightarrow> string \<times> string option \<Rightarrow> 'v GroupingDimensionSpec" where
  "dimSpec_of dt d =
     new_GroupingDimensionSpec (dt (fst d))
       (case snd d of None \<Rightarrow> False | Some token \<Rightarrow> map toLowerCase token = ''desc'')"

definition levelSpec_of ::
  "(string \<Rightarrow> 'v DimensionType) \<Rightarrow> dimension_text list \<Rightarrow> 'v GroupingLevelSpec" where
  "levelSpec_of dt ds = new_GroupingLevelSpec (map (dimSpec_of dt) (List.map_filter (\<lambda>d. d) ds))"

text \<open>
  Fragments, for the proofs about \<open>split\<close>: a text without the separator \<open>c\<close> that does
  not end in white space, and that does not start with it either.
\<close>

definition clean :: "char \<Rightarrow> string \<Rightarrow> bool" where
  "clean c f = (c \<notin> set f \<and> (f = [] \<or> \<not> isSpace (last f)))"

definition fragment :: "char \<Rightarrow> string \<Rightarrow> bool" where
  "fragment c f = (clean c f \<and> (f = [] \<or> \<not> isSpace (hd f)))"

text \<open>The text of the example in the documentation of \<open>parse\<close>, and a variation on it.\<close>

definition example_text :: "dimension_text list list" where
  "example_text =
     [[Some (''series1'', Some ''asc''), Some (''series2'', Some ''desc'')],
      [Some (''category'', None)]]"

definition spaced_text :: "dimension_text list list" where
  "spaced_text =
     [[Some (''series2'', Some ''DESC''), None, Some (''series1'', None)],
      [],
      [Some (''category'', Some ''Asc'')]]"

section \<open>Levels: the composite comparator and the grouping key\<close>

subsection \<open>The loops as recursion on the dimensions\<close>

lemma compare_loop_drop:
  "i \<le> length dims \<Longrightarrow> compare_loop dims (length dims) i a b = compare_list (drop i dims) a b"
proof (induction "length dims - i" arbitrary: i)
  case 0
  then show ?case by (simp add: compare_loop.simps)
next
  case (Suc n)
  then have lt: "i < length dims" by simp
  have IH: "compare_loop dims (length dims) (Suc i) a b = compare_list (drop (Suc i) dims) a b"
    using Suc by simp
  have dr: "drop i dims = dims ! i # drop (Suc i) dims"
    using lt by (simp add: Cons_nth_drop_Suc)
  show ?case
    by (subst compare_loop.simps) (auto simp: lt dr IH compareDatums_def split: sum.splits)
qed

lemma compare_new_level:
  "compare (new_GroupingLevelSpec dims) a b = compare_list dims a b"
  using compare_loop_drop [of 0 dims a b]
  by (simp add: compare_def new_GroupingLevelSpec_def)

lemma compare_list_all_zero:
  "(\<forall>d\<in>set dims. compareDatums d a b = Inr 0) \<Longrightarrow> compare_list dims a b = Inr 0"
  by (induction dims) auto

lemma compare_list_first:
  "i < length dims \<Longrightarrow> (\<forall>j<i. compareDatums (dims ! j) a b = Inr 0) \<Longrightarrow>
   compareDatums (dims ! i) a b \<noteq> Inr 0 \<Longrightarrow>
   compare_list dims a b = compareDatums (dims ! i) a b"
proof (induction dims arbitrary: i)
  case Nil
  then show ?case by simp
next
  case (Cons d ds)
  show ?case
  proof (cases i)
    case 0
    with Cons.prems show ?thesis by simp
  next
    case (Suc k)
    have hd0: "compareDatums d a b = Inr 0"
      using Cons.prems(2) Suc by (metis nth_Cons_0 zero_less_Suc)
    have "compare_list ds a b = compareDatums (ds ! k) a b"
    proof (rule Cons.IH)
      show "k < length ds" using Cons.prems(1) Suc by simp
      show "\<forall>j<k. compareDatums (ds ! j) a b = Inr 0"
        using Cons.prems(2) Suc by (metis Suc_less_eq nth_Cons_Suc)
      show "compareDatums (ds ! k) a b \<noteq> Inr 0"
        using Cons.prems(3) Suc by simp
    qed
    with hd0 Suc show ?thesis by simp
  qed
qed

lemma key_loop_drop:
  "i \<le> length dims \<Longrightarrow>
   key_loop dims (length dims) i datum keys as =
     (case key_list (drop i dims) datum of
        Inl e \<Rightarrow> Inl e
      | Inr (ks, as') \<Rightarrow> Inr \<lparr> key_string = join '','' (keys @ ks), key_atoms = as @ as' \<rparr>)"
proof (induction "length dims - i" arbitrary: i keys as)
  case 0
  then show ?case by (simp add: key_loop.simps)
next
  case (Suc n)
  then have lt: "i < length dims" by simp
  have IH: "\<And>keys as. key_loop dims (length dims) (Suc i) datum keys as =
     (case key_list (drop (Suc i) dims) datum of
        Inl e \<Rightarrow> Inl e
      | Inr (ks, as') \<Rightarrow> Inr \<lparr> key_string = join '','' (keys @ ks), key_atoms = as @ as' \<rparr>)"
    using Suc by simp
  have dr: "drop i dims = dims ! i # drop (Suc i) dims"
    using lt by (simp add: Cons_nth_drop_Suc)
  show ?case
    by (subst key_loop.simps) (auto simp: lt dr IH split: sum.splits option.splits)
qed

lemma key_new_level:
  "key (new_GroupingLevelSpec dims) datum =
     (case key_list dims datum of
        Inl e \<Rightarrow> Inl e
      | Inr (ks, as) \<Rightarrow> Inr \<lparr> key_string = join '','' ks, key_atoms = as \<rparr>)"
  using key_loop_drop [of 0 dims datum "[]" "[]"]
  by (simp add: key_def new_GroupingLevelSpec_def split: sum.splits prod.splits)

lemmas example_defs =
  series_dimensions_def new_GroupingDimensionSpec_def number_dimension_def
  compare_numbers_def datum_1_5_def datum_1_7_def datum_1_5_9_def datum_1_def datum_2_def
  number_atom_def

lemma series_compareDatums:
  "compareDatums (series_dimensions ! 0) datum_1_5 datum_1_7 = Inr 0"
  "compareDatums (series_dimensions ! Suc 0) datum_1_5 datum_1_7 = Inr 1"
  "compareDatums (series_dimensions ! 0) datum_1_5 datum_1_5 = Inr 0"
  "compareDatums (series_dimensions ! Suc 0) datum_1_5 datum_1_5 = Inr 0"
  by (simp_all add: compareDatums_def example_defs)

lemma series_length: "length series_dimensions = 2"
  by (simp add: series_dimensions_def)

subsection \<open>The comparator is lexicographic\<close>

text \<open>
  Claim C1. For a level built from the dimensions \<open>dims\<close> and two datums \<open>a\<close> and \<open>b\<close>:
  when \<open>compareDatums\<close> is 0 on every dimension, \<open>compare\<close> returns 0; when the
  dimension at index \<open>i\<close> is the first whose \<open>compareDatums\<close> is not 0, \<open>compare\<close>
  returns that dimension's result \<open>r\<close>; and when that first dimension throws, so does
  \<open>compare\<close>.
\<close>

theorem compare_lexicographic:
  "((\<forall>d\<in>set dims. compareDatums d a b = Inr 0) \<longrightarrow>
      compare (new_GroupingLevelSpec dims) a b = Inr 0) \<and>
   (i < length dims \<and> (\<forall>j<i. compareDatums (dims ! j) a b = Inr 0) \<and>
    compareDatums (dims ! i) a b = Inr r \<and> r \<noteq> 0 \<longrightarrow>
      compare (new_GroupingLevelSpec dims) a b = Inr r) \<and>
   (i < length dims \<and> (\<forall>j<i. compareDatums (dims ! j) a b = Inr 0) \<and>
    compareDatums (dims ! i) a b = Inl e \<longrightarrow>
      compare (new_GroupingLevelSpec dims) a b = Inl e)"
proof (intro conjI impI)
  assume "\<forall>d\<in>set dims. compareDatums d a b = Inr 0"
  then show "compare (new_GroupingLevelSpec dims) a b = Inr 0"
    by (simp add: compare_new_level compare_list_all_zero)
next
  assume h: "i < length dims \<and> (\<forall>j<i. compareDatums (dims ! j) a b = Inr 0) \<and>
    compareDatums (dims ! i) a b = Inr r \<and> r \<noteq> 0"
  then have "compare_list dims a b = compareDatums (dims ! i) a b"
    by (intro compare_list_first) auto
  with h show "compare (new_GroupingLevelSpec dims) a b = Inr r"
    by (simp add: compare_new_level)
next
  assume h: "i < length dims \<and> (\<forall>j<i. compareDatums (dims ! j) a b = Inr 0) \<and>
    compareDatums (dims ! i) a b = Inl e"
  then have "compare_list dims a b = compareDatums (dims ! i) a b"
    by (intro compare_list_first) auto
  with h show "compare (new_GroupingLevelSpec dims) a b = Inl e"
    by (simp add: compare_new_level)
qed

theorem compare_lexicographic_witness:
  "compare series_level datum_1_5 datum_1_7 = Inr 1 \<and>
   compareDatums (series_dimensions ! 0) datum_1_5 datum_1_7 = Inr 0 \<and>
   compareDatums (series_dimensions ! 1) datum_1_5 datum_1_7 = Inr 1 \<and>
   compare series_level datum_1_5 datum_1_5 = Inr 0"
proof -
  have "\<forall>j<Suc 0. compareDatums (series_dimensions ! j) datum_1_5 datum_1_7 = Inr 0"
    by (simp add: series_compareDatums)
  then have first: "compare series_level datum_1_5 datum_1_7 = Inr 1"
    using compare_lexicographic [of series_dimensions datum_1_5 datum_1_7 "Suc 0" 1 undefined]
    by (simp add: series_length series_compareDatums series_level_def)
  have "\<forall>d\<in>set series_dimensions. compareDatums d datum_1_5 datum_1_5 = Inr 0"
    using series_compareDatums(3,4) by (simp add: series_dimensions_def)
  then have tie: "compare series_level datum_1_5 datum_1_5 = Inr 0"
    using compare_lexicographic [of series_dimensions datum_1_5 datum_1_5 0 0 undefined]
    by (simp add: series_level_def)
  from first tie show ?thesis
    by (simp add: series_compareDatums)
qed

subsection \<open>Antisymmetry\<close>

lemma compare_list_antisym:
  "(\<forall>d\<in>set dims. \<exists>r. compareDatums d a b = Inr r \<and> compareDatums d b a = Inr (- r)) \<Longrightarrow>
   \<exists>r. compare_list dims a b = Inr r \<and> compare_list dims b a = Inr (- r)"
proof (induction dims)
  case Nil
  then show ?case by simp
next
  case (Cons d ds)
  then obtain r where r: "compareDatums d a b = Inr r" "compareDatums d b a = Inr (- r)"
    by auto
  from Cons have IH: "\<exists>r. compare_list ds a b = Inr r \<and> compare_list ds b a = Inr (- r)"
    by simp
  show ?case
  proof (cases "r = 0")
    case True
    with r IH show ?thesis by simp
  next
    case False
    with r show ?thesis by simp
  qed
qed

text \<open>
  Claim C7, amended. The comparers belong to the dimension types and are options of the
  caller. For a level built from \<open>dims\<close> and two datums \<open>a\<close> and \<open>b\<close> on which every
  dimension compares antisymmetrically and without throwing (among \<open>a\<close> and \<open>b\<close>, in
  both orders and each with itself), \<open>compare a b\<close> is the negation of \<open>compare b a\<close>,
  and \<open>compare a a\<close> is 0.
\<close>

theorem compare_antisymmetric:
  assumes "\<forall>d\<in>set dims. \<forall>x\<in>{a, b}. \<forall>y\<in>{a, b}.
             \<exists>r. compareDatums d x y = Inr r \<and> compareDatums d y x = Inr (- r)"
  shows "(\<exists>r. compare (new_GroupingLevelSpec dims) a b = Inr r \<and>
              compare (new_GroupingLevelSpec dims) b a = Inr (- r)) \<and>
         compare (new_GroupingLevelSpec dims) a a = Inr 0"
proof
  have "\<forall>d\<in>set dims. \<exists>r. compareDatums d a b = Inr r \<and> compareDatums d b a = Inr (- r)"
    using assms by blast
  then show "\<exists>r. compare (new_GroupingLevelSpec dims) a b = Inr r \<and>
              compare (new_GroupingLevelSpec dims) b a = Inr (- r)"
    unfolding compare_new_level by (rule compare_list_antisym)
next
  have "\<forall>d\<in>set dims. \<exists>r. compareDatums d a a = Inr r \<and> compareDatums d a a = Inr (- r)"
    using assms by blast
  then have "\<forall>d\<in>set dims. compareDatums d a a = Inr 0"
    by fastforce
  then show "compare (new_GroupingLevelSpec dims) a a = Inr 0"
    by (simp add: compare_new_level compare_list_all_zero)
qed

lemma series_compareDatums_rev:
  "compareDatums (series_dimensions ! 0) datum_1_7 datum_1_5 = Inr 0"
  "compareDatums (series_dimensions ! Suc 0) datum_1_7 datum_1_5 = Inr (- 1)"
  "compareDatums (series_dimensions ! 0) datum_1_7 datum_1_7 = Inr 0"
  "compareDatums (series_dimensions ! Suc 0) datum_1_7 datum_1_7 = Inr 0"
  by (simp_all add: compareDatums_def example_defs)

lemma series_set: "set series_dimensions = {series_dimensions ! 0, series_dimensions ! Suc 0}"
  by (simp add: series_dimensions_def)

theorem compare_antisymmetric_witness:
  "compare series_level datum_1_5 datum_1_7 = Inr 1 \<and>
   compare series_level datum_1_7 datum_1_5 = Inr (- 1) \<and>
   compare series_level datum_1_5 datum_1_5 = Inr 0"
proof -
  have hyp: "\<forall>d\<in>set series_dimensions. \<forall>x\<in>{datum_1_5, datum_1_7}. \<forall>y\<in>{datum_1_5, datum_1_7}.
             \<exists>r. compareDatums d x y = Inr r \<and> compareDatums d y x = Inr (- r)"
    by (simp add: series_set series_compareDatums series_compareDatums_rev)
  have "compare series_level datum_1_5 datum_1_7 = Inr 1"
    by (simp add: series_level_def compare_new_level series_dimensions_def compareDatums_def
          new_GroupingDimensionSpec_def number_dimension_def compare_numbers_def
          datum_1_5_def datum_1_7_def number_atom_def)
  with compare_antisymmetric [OF hyp] show ?thesis
    by (simp add: series_level_def)
qed

text \<open>
  Claim C7 as stated fails for a dimension type whose comparer is not antisymmetric:
  with the comparer that always answers 1, a datum compared with itself gives 1.
\<close>

theorem compare_antisymmetric_counterexample:
  "compare skewed_level datum_1 datum_1 = Inr 1"
  by (simp add: skewed_level_def compare_new_level compareDatums_def
        new_GroupingDimensionSpec_def skewed_dimension_def)

subsection \<open>The key agrees with the comparator\<close>

lemma key_list_present:
  "map (\<lambda>d. atoms datum (dim_name d)) dims = map Some as \<Longrightarrow> map globalKey as = map Inr ks \<Longrightarrow>
   key_list dims datum = Inr (ks, as)"
proof (induction dims arbitrary: as ks)
  case Nil
  then show ?case by simp
next
  case (Cons d ds)
  then obtain x xs where as: "as = x # xs" by (cases as) auto
  with Cons.prems obtain k ks' where ks: "ks = k # ks'" by (cases ks) auto
  have "key_list ds datum = Inr (ks', xs)"
    using Cons.prems as ks by (intro Cons.IH) auto
  then show ?case
    using Cons.prems as ks by simp
qed

lemma compare_list_zero:
  "compare_list dims a b = Inr 0 \<Longrightarrow> \<forall>d\<in>set dims. compareDatums d a b = Inr 0"
  by (induction dims) (auto split: if_splits)

lemma compareDatums_zero:
  "compareDatums d a b = Inr 0 \<Longrightarrow>
   dim_comparer d (atoms a (dim_name d)) (atoms b (dim_name d)) = Inr 0"
  by (auto simp: compareDatums_def split: sum.splits if_splits)

lemma faithful_keys:
  assumes "\<forall>d\<in>set dims. faithful_globalKey (dim_comparer d)"
    and "\<forall>d\<in>set dims. compareDatums d a b = Inr 0"
    and "key_list dims a = Inr (ka, xa)" and "key_list dims b = Inr (kb, xb)"
  shows "ka = kb"
  using assms
proof (induction dims arbitrary: ka xa kb xb)
  case Nil
  then show ?case by simp
next
  case (Cons d ds)
  from Cons.prems(3) obtain x k ks xs where
    a: "atoms a (dim_name d) = Some x" "globalKey x = Inr k" "key_list ds a = Inr (ks, xs)"
       "ka = k # ks"
    by (auto split: option.splits sum.splits)
  from Cons.prems(4) obtain y k' ks' ys where
    b: "atoms b (dim_name d) = Some y" "globalKey y = Inr k'" "key_list ds b = Inr (ks', ys)"
       "kb = k' # ks'"
    by (auto split: option.splits sum.splits)
  have "dim_comparer d (Some x) (Some y) = Inr 0"
    using Cons.prems(2) a(1) b(1) compareDatums_zero [of d a b] by simp
  moreover have "faithful_globalKey (dim_comparer d)"
    using Cons.prems(1) by simp
  ultimately have "globalKey x = globalKey y"
    by (simp add: faithful_globalKey_def)
  then have "k = k'" using a(2) b(2) by simp
  moreover have "ks = ks'"
    using Cons.prems(1,2) a(3) b(3) by (intro Cons.IH [of ks xs ks' ys]) auto
  ultimately show ?case using a(4) b(4) by simp
qed

text \<open>
  Claim C2. When the datum has the atoms \<open>as\<close> for the dimensions of the level, in
  order, and their global keys are \<open>ks\<close>, \<open>key\<close> returns the keys joined by commas
  together with the atoms in that order. And when every dimension's global key is a
  faithful equality witness for its comparer, two datums that \<open>compare\<close> ranks equal and
  for which \<open>key\<close> returns have the same key string.
\<close>

theorem key_consistent_with_compare:
  "(map (\<lambda>d. atoms datum (dim_name d)) dims = map Some as \<and> map globalKey as = map Inr ks \<longrightarrow>
      key (new_GroupingLevelSpec dims) datum = Inr \<lparr> key_string = join '','' ks, key_atoms = as \<rparr>) \<and>
   ((\<forall>d\<in>set dims. faithful_globalKey (dim_comparer d)) \<and>
    compare (new_GroupingLevelSpec dims) a b = Inr 0 \<and>
    key (new_GroupingLevelSpec dims) a = Inr ka \<and>
    key (new_GroupingLevelSpec dims) b = Inr kb \<longrightarrow>
      key_string ka = key_string kb)"
proof (intro conjI impI)
  assume "map (\<lambda>d. atoms datum (dim_name d)) dims = map Some as \<and> map globalKey as = map Inr ks"
  then have "key_list dims datum = Inr (ks, as)"
    by (simp add: key_list_present)
  then show "key (new_GroupingLevelSpec dims) datum
      = Inr \<lparr> key_string = join '','' ks, key_atoms = as \<rparr>"
    by (simp add: key_new_level)
next
  assume h: "(\<forall>d\<in>set dims. faithful_globalKey (dim_comparer d)) \<and>
    compare (new_GroupingLevelSpec dims) a b = Inr 0 \<and>
    key (new_GroupingLevelSpec dims) a = Inr ka \<and>
    key (new_GroupingLevelSpec dims) b = Inr kb"
  then have "compare_list dims a b = Inr 0"
    by (simp add: compare_new_level)
  then have zero: "\<forall>d\<in>set dims. compareDatums d a b = Inr 0"
    by (rule compare_list_zero)
  from h obtain ksa xa where a: "key_list dims a = Inr (ksa, xa)" "key_string ka = join '','' ksa"
    by (auto simp: key_new_level split: sum.splits)
  from h obtain ksb xb where b: "key_list dims b = Inr (ksb, xb)" "key_string kb = join '','' ksb"
    by (auto simp: key_new_level split: sum.splits)
  have "ksa = ksb"
    using h zero a(1) b(1) by (intro faithful_keys [of dims a b ksa xa ksb xb]) auto
  with a(2) b(2) show "key_string ka = key_string kb" by simp
qed

lemma compare_numbers_faithful: "faithful_globalKey (compare_numbers reverse)"
  by (auto simp: faithful_globalKey_def compare_numbers_def split: if_splits)

lemma series_faithful: "\<forall>d\<in>set series_dimensions. faithful_globalKey (dim_comparer d)"
  by (simp add: series_dimensions_def new_GroupingDimensionSpec_def number_dimension_def
        compare_numbers_faithful)

theorem key_consistent_with_compare_witness:
  "compare series_level datum_1_5 datum_1_5_9 = Inr 0 \<and>
   key series_level datum_1_5 =
     Inr \<lparr> key_string = ''1,5'', key_atoms = [number_atom 1 ''1'', number_atom 5 ''5''] \<rparr> \<and>
   (\<exists>kb. key series_level datum_1_5_9 = Inr kb \<and> key_string kb = ''1,5'')"
proof -
  let ?as = "[number_atom 1 ''1'', number_atom 5 ''5'']"
  let ?ks = "[''1'', ''5'']"
  have present: "map (\<lambda>d. atoms datum_1_5 (dim_name d)) series_dimensions = map Some ?as \<and>
      map globalKey ?as = map Inr ?ks"
    by (simp add: example_defs)
  have ka: "key series_level datum_1_5 = Inr \<lparr> key_string = ''1,5'', key_atoms = ?as \<rparr>"
    using key_consistent_with_compare [of datum_1_5 series_dimensions ?as ?ks] present
    by (simp add: series_level_def)
  obtain kb where kb: "key series_level datum_1_5_9 = Inr kb"
    by (auto simp: series_level_def key_new_level example_defs)
  have cmp: "compare series_level datum_1_5 datum_1_5_9 = Inr 0"
    by (simp add: series_level_def compare_new_level compareDatums_def example_defs)
  have "key_string kb = ''1,5''"
    using key_consistent_with_compare [of undefined series_dimensions undefined undefined
        datum_1_5 datum_1_5_9 "\<lparr> key_string = ''1,5'', key_atoms = ?as \<rparr>" kb]
      series_faithful cmp ka kb
    by (simp add: series_level_def)
  with cmp ka kb show ?thesis by simp
qed

subsection \<open>When the two operations return\<close>

lemma key_list_defined:
  "(\<exists>r. key_list dims datum = Inr r) \<longleftrightarrow>
   (\<forall>d\<in>set dims. \<exists>atom s. atoms datum (dim_name d) = Some atom \<and> globalKey atom = Inr s)"
  by (induction dims) (auto split: option.splits sum.splits)

lemma compare_list_defined:
  "(\<forall>d\<in>set dims. \<exists>r. compareDatums d a b = Inr r) \<Longrightarrow> \<exists>r. compare_list dims a b = Inr r"
  by (induction dims) auto

text \<open>
  Claim C10, amended. \<open>key\<close> returns exactly when the datum has an atom for every
  dimension name of the level and the \<open>globalKey\<close> call of each of these atoms returns.
  \<open>compare\<close> returns when both datums have an atom for every dimension name of the
  level and every dimension's comparer returns on these atoms. (The converse for
  \<open>compare\<close> is not claimed: it makes no presence check, hands a missing atom to the
  comparer as \<^verbatim>\<open>undefined\<close>, and does not read the dimensions after the first
  non-zero result.)
\<close>

theorem key_compare_defined:
  "((\<exists>k. key (new_GroupingLevelSpec dims) datum = Inr k) \<longleftrightarrow>
      (\<forall>d\<in>set dims. \<exists>atom s. atoms datum (dim_name d) = Some atom \<and> globalKey atom = Inr s)) \<and>
   ((\<forall>d\<in>set dims. \<exists>x y r. atoms a (dim_name d) = Some x \<and> atoms b (dim_name d) = Some y \<and>
                          dim_comparer d (Some x) (Some y) = Inr r) \<longrightarrow>
      (\<exists>r. compare (new_GroupingLevelSpec dims) a b = Inr r))"
proof (intro conjI impI)
  have "(\<exists>k. key (new_GroupingLevelSpec dims) datum = Inr k) \<longleftrightarrow> (\<exists>r. key_list dims datum = Inr r)"
    by (auto simp: key_new_level split: sum.splits)
  then show "(\<exists>k. key (new_GroupingLevelSpec dims) datum = Inr k) \<longleftrightarrow>
      (\<forall>d\<in>set dims. \<exists>atom s. atoms datum (dim_name d) = Some atom \<and> globalKey atom = Inr s)"
    by (simp only: key_list_defined)
next
  assume h: "\<forall>d\<in>set dims. \<exists>x y r. atoms a (dim_name d) = Some x \<and> atoms b (dim_name d) = Some y \<and>
                          dim_comparer d (Some x) (Some y) = Inr r"
  have "\<forall>d\<in>set dims. \<exists>r. compareDatums d a b = Inr r"
  proof
    fix d assume "d \<in> set dims"
    with h obtain x y r where "atoms a (dim_name d) = Some x" "atoms b (dim_name d) = Some y"
        "dim_comparer d (Some x) (Some y) = Inr r"
      by blast
    then show "\<exists>r. compareDatums d a b = Inr r"
      by (simp add: compareDatums_def)
  qed
  then show "\<exists>r. compare (new_GroupingLevelSpec dims) a b = Inr r"
    unfolding compare_new_level by (rule compare_list_defined)
qed

theorem key_compare_defined_witness:
  "(\<exists>k. key series_level datum_1_5 = Inr k) \<and>
   key series_level datum_1 = Inl TypeError \<and>
   (\<exists>r. compare series_level datum_1_5 datum_1_7 = Inr r)"
proof -
  have present: "\<forall>d\<in>set series_dimensions.
      \<exists>atom s. atoms datum_1_5 (dim_name d) = Some atom \<and> globalKey atom = Inr s"
    by (simp add: example_defs)
  have both: "\<forall>d\<in>set series_dimensions.
      \<exists>x y r. atoms datum_1_5 (dim_name d) = Some x \<and> atoms datum_1_7 (dim_name d) = Some y \<and>
              dim_comparer d (Some x) (Some y) = Inr r"
    by (simp add: example_defs)
  have k: "\<exists>k. key series_level datum_1_5 = Inr k"
    unfolding series_level_def
    using key_compare_defined [of series_dimensions datum_1_5 datum_1_5 datum_1_7] present
    by blast
  have c: "\<exists>r. compare series_level datum_1_5 datum_1_7 = Inr r"
    unfolding series_level_def
    using key_compare_defined [of series_dimensions datum_1_5 datum_1_5 datum_1_7] both
    by blast
  have "\<not> (\<forall>d\<in>set series_dimensions.
      \<exists>atom s. atoms datum_1 (dim_name d) = Some atom \<and> globalKey atom = Inr s)"
    by (simp add: example_defs)
  then have "\<not> (\<exists>k. key series_level datum_1 = Inr k)"
    unfolding series_level_def
    using key_compare_defined [of series_dimensions datum_1 datum_1 datum_1]
    by blast
  moreover have "key series_level datum_1 = Inl TypeError"
    by (simp add: series_level_def key_new_level example_defs)
  ultimately show ?thesis
    using k c by simp
qed

text \<open>
  Claim C10 as stated fails: \<open>compare\<close> returns for two datums that both lack an atom
  for the second dimension of the level, because the first dimension decides. (The
  comparer of the example throws on a missing atom.)
\<close>

theorem compare_without_atoms_counterexample:
  "compare series_level datum_1 datum_2 = Inr (- 1) \<and> atoms datum_1 ''series2'' = None \<and>
   atoms datum_2 ''series2'' = None"
  by (simp add: series_level_def compare_new_level compareDatums_def example_defs)

section \<open>Construction of a grouping specification\<close>

lemma fold_composite:
  "fold (\<lambda>levelSpec hc. if \<not> hc \<and> length (level_dimensions levelSpec) > 1 then True else hc) ls b
     = (b \<or> (\<exists>l\<in>set ls. length (level_dimensions l) > 1))"
  by (induction ls arbitrary: b) auto

lemma GroupingSpec_init_Inr:
  assumes "GroupingSpec_init (Some ls) (Some ty) keyArgs = Inr g"
  shows "filter (\<lambda>l. level_dimensions l \<noteq> []) ls \<noteq> []"
    and "g = constructed_spec ty (filter (\<lambda>l. level_dimensions l \<noteq> []) ls)
               (truthy_string (kw_flatteningMode keyArgs))
               (string_or_empty (kw_flattenRootLabel keyArgs))"
  using assms unfolding GroupingSpec_init_def Let_def fold_composite constructed_spec_def
  by (auto split: if_splits)

lemma GroupingSpec_init_retained:
  assumes "filter (\<lambda>l. level_dimensions l \<noteq> []) ls \<noteq> []"
  shows "GroupingSpec_init (Some ls) (Some ty) keyArgs =
           Inr (constructed_spec ty (filter (\<lambda>l. level_dimensions l \<noteq> []) ls)
                  (truthy_string (kw_flatteningMode keyArgs))
                  (string_or_empty (kw_flattenRootLabel keyArgs)))"
  using assms unfolding GroupingSpec_init_def Let_def fold_composite constructed_spec_def
  by auto

lemma GroupingSpec_init_succeeds:
  assumes "\<exists>l\<in>set ls. level_dimensions l \<noteq> []"
  shows "\<exists>g. GroupingSpec_init (Some ls) (Some ty) keyArgs = Inr g"
proof -
  from assms have "filter (\<lambda>l. level_dimensions l \<noteq> []) ls \<noteq> []"
    by (simp add: filter_empty_conv)
  then show ?thesis
    by (simp add: GroupingSpec_init_def Let_def)
qed

text \<open>
  Claim C4. For every grouping specification \<open>g\<close> that the constructor returns: its
  levels are the given levels without those that have no dimension; \<open>depth\<close> is their
  number; \<open>isSingleLevel\<close> says that the depth is 1; \<open>hasCompositeLevels\<close> says that a
  retained level has more than one dimension; \<open>isSingleDimension\<close> says single level
  and no composite level; \<open>firstDimension\<close> is the first dimension of the first level,
  which exists; and \<open>id\<close> is the flattening mode (the empty string for \<^verbatim>\<open>null\<close>),
  \<^verbatim>\<open>##\<close>, the root label, \<^verbatim>\<open>##\<close> and the ids of the retained levels joined by \<^verbatim>\<open>||\<close>.
  The id of a level is the ids of its dimensions joined by a comma, and the id of a
  dimension is its name, a colon, and 0 when reversed, 1 otherwise.
\<close>

theorem GroupingSpec_invariants:
  assumes "GroupingSpec_init (Some ls) (Some ty) keyArgs = Inr g"
  shows "levels g = filter (\<lambda>l. level_dimensions l \<noteq> []) ls \<and>
         depth g = length (levels g) \<and>
         (isSingleLevel g \<longleftrightarrow> depth g = 1) \<and>
         (hasCompositeLevels g \<longleftrightarrow> (\<exists>l\<in>set (levels g). length (level_dimensions l) > 1)) \<and>
         (isSingleDimension g \<longleftrightarrow> isSingleLevel g \<and> \<not> hasCompositeLevels g) \<and>
         (\<exists>l rest d ds. levels g = l # rest \<and> level_dimensions l = d # ds \<and>
                         firstDimension g = Some d) \<and>
         flatteningMode g = truthy_string (kw_flatteningMode keyArgs) \<and>
         flattenRootLabel g = string_or_empty (kw_flattenRootLabel keyArgs) \<and>
         spec_id g = string_or_empty (flatteningMode g) @ ''##'' @ flattenRootLabel g @ ''##'' @
                     join ''||'' (map level_id (levels g)) \<and>
         level_id (new_GroupingLevelSpec dims) = join '','' (map dim_id dims) \<and>
         dim_id (new_GroupingDimensionSpec dimType reverse) =
           type_name dimType @ '':'' @ (if reverse then ''0'' else ''1'')"
proof -
  let ?retained = "filter (\<lambda>l. level_dimensions l \<noteq> []) ls"
  note g = GroupingSpec_init_Inr [OF assms]
  from g(1) obtain l rest where lr: "?retained = l # rest"
    by (cases ?retained) auto
  then have "l \<in> set ?retained" by simp
  then have "level_dimensions l \<noteq> []" by simp
  then obtain d ds where dd: "level_dimensions l = d # ds"
    by (cases "level_dimensions l") auto
  have first: "\<exists>l rest d ds. levels g = l # rest \<and> level_dimensions l = d # ds \<and>
                         firstDimension g = Some d"
    using g(2) lr dd by (simp add: constructed_spec_def)
  have rest: "levels g = ?retained" "depth g = length (levels g)" "isSingleLevel g \<longleftrightarrow> depth g = 1"
    "hasCompositeLevels g \<longleftrightarrow> (\<exists>l\<in>set (levels g). length (level_dimensions l) > 1)"
    "isSingleDimension g \<longleftrightarrow> isSingleLevel g \<and> \<not> hasCompositeLevels g"
    "flatteningMode g = truthy_string (kw_flatteningMode keyArgs)"
    "flattenRootLabel g = string_or_empty (kw_flattenRootLabel keyArgs)"
    "spec_id g = string_or_empty (flatteningMode g) @ ''##'' @ flattenRootLabel g @ ''##'' @
                     join ''||'' (map level_id (levels g))"
    using g(2) by (simp_all add: constructed_spec_def)
  have ids: "level_id (new_GroupingLevelSpec dims) = join '','' (map dim_id dims)"
    "dim_id (new_GroupingDimensionSpec dimType reverse) =
           type_name dimType @ '':'' @ (if reverse then ''0'' else ''1'')"
    by (simp_all add: new_GroupingLevelSpec_def new_GroupingDimensionSpec_def)
  from first rest ids show ?thesis by simp
qed

lemma example_retained:
  "filter (\<lambda>l. level_dimensions l \<noteq> []) example_levels = [series_level, category_level]"
  by (simp add: example_levels_def series_level_def category_level_def new_GroupingLevelSpec_def
        series_dimensions_def)

lemma example_level_ids:
  "level_id series_level = ''series1:1,series2:0''" "level_id category_level = ''category:1''"
  "length (level_dimensions series_level) = 2" "length (level_dimensions category_level) = 1"
  by (simp_all add: series_level_def category_level_def new_GroupingLevelSpec_def
        series_dimensions_def new_GroupingDimensionSpec_def number_dimension_def)

theorem GroupingSpec_invariants_witness:
  "\<exists>g. GroupingSpec_init (Some example_levels) (Some example_type) no_keyArgs = Inr g \<and>
       levels g = [series_level, category_level] \<and> depth g = 2 \<and> \<not> isSingleLevel g \<and>
       hasCompositeLevels g \<and> \<not> isSingleDimension g \<and>
       firstDimension g = Some (new_GroupingDimensionSpec (number_dimension ''series1'') False) \<and>
       spec_id g = ''####series1:1,series2:0||category:1''"
proof -
  have "\<exists>l\<in>set example_levels. level_dimensions l \<noteq> []"
    by (simp add: example_levels_def series_level_def new_GroupingLevelSpec_def
          series_dimensions_def)
  then obtain g where g: "GroupingSpec_init (Some example_levels) (Some example_type) no_keyArgs = Inr g"
    using GroupingSpec_init_succeeds by blast
  have first: "level_dimensions series_level =
      new_GroupingDimensionSpec (number_dimension ''series1'') False #
      [new_GroupingDimensionSpec (number_dimension ''series2'') True]"
    by (simp add: series_level_def new_GroupingLevelSpec_def series_dimensions_def)
  note inv = GroupingSpec_invariants [OF g, of "[]" "number_dimension []" False]
  from inv have "levels g = filter (\<lambda>l. level_dimensions l \<noteq> []) example_levels"
    by (elim conjE)
  then have lv: "levels g = [series_level, category_level]"
    by (simp only: example_retained)
  from inv have "spec_id g = string_or_empty (flatteningMode g) @ ''##'' @ flattenRootLabel g @
      ''##'' @ join ''||'' (map level_id (levels g))"
    and "flatteningMode g = truthy_string (kw_flatteningMode no_keyArgs)"
    and "flattenRootLabel g = string_or_empty (kw_flattenRootLabel no_keyArgs)"
    by blast+
  then have id: "spec_id g = ''####series1:1,series2:0||category:1''"
    by (simp add: lv example_level_ids no_keyArgs_def truthy_string_def string_or_empty_def)
  from inv have "\<exists>l rest d ds. levels g = l # rest \<and> level_dimensions l = d # ds \<and>
      firstDimension g = Some d"
    by (elim conjE)
  then have fd: "firstDimension g = Some (new_GroupingDimensionSpec (number_dimension ''series1'') False)"
    by (auto simp: lv first)
  from inv have "depth g = length (levels g)" and "isSingleLevel g \<longleftrightarrow> depth g = 1"
    and "hasCompositeLevels g \<longleftrightarrow> (\<exists>l\<in>set (levels g). length (level_dimensions l) > 1)"
    and "isSingleDimension g \<longleftrightarrow> isSingleLevel g \<and> \<not> hasCompositeLevels g"
    by blast+
  then have "depth g = 2 \<and> \<not> isSingleLevel g \<and> hasCompositeLevels g \<and> \<not> isSingleDimension g"
    by (simp add: lv example_level_ids)
  with lv id fd
  have "levels g = [series_level, category_level] \<and> depth g = 2 \<and> \<not> isSingleLevel g \<and>
       hasCompositeLevels g \<and> \<not> isSingleDimension g \<and>
       firstDimension g = Some (new_GroupingDimensionSpec (number_dimension ''series1'') False) \<and>
       spec_id g = ''####series1:1,series2:0||category:1''"
    by simp
  with g show ?thesis by blast
qed

lemma split_empty: "split c [] = [[]]"
  by (simp add: split_def split_loop.simps sep_matches_def)

lemma GroupingSpec_init_no_dimensions:
  assumes "\<forall>l\<in>set ls. level_dimensions l = []"
  shows "GroupingSpec_init (Some ls) (Some ty) keyArgs =
           Inl (ArgumentInvalid ''levelSpecs'' ''Must have at least one element.'')"
proof -
  from assms have "filter (\<lambda>l. 0 < length (level_dimensions l)) ls = []"
    by (simp add: filter_empty_conv)
  then show ?thesis
    by (simp add: GroupingSpec_init_def)
qed

lemma map_result_Inr:
  "\<forall>x\<in>set xs. f x = Inr (g x) \<Longrightarrow> map_result f xs = Inr (map g xs)"
  by (induction xs) simp_all

text \<open>
  A text all of whose pieces are empty: every level it splits into, at the commas,
  splits into empty strings only, at the bars. No dimension is parsed, every level is
  without dimensions, and the constructor rejects them.
\<close>

lemma parse_no_dimension:
  assumes "s \<noteq> []"
    and "\<forall>l\<in>set (split (CHR '','') s). \<forall>f\<in>set (split (CHR ''|'') l). f = []"
  shows "parse h (Some (SpecString s)) (Some ty) =
           (Inl (ArgumentInvalid ''levelSpecs'' ''Must have at least one element.''), h)"
proof -
  let ?levels = "map LevelString (split (CHR '','') s)"
  have "parse_level ty x = Inr (new_GroupingLevelSpec [])" if "x \<in> set ?levels" for x
  proof -
    from that obtain l where l: "x = LevelString l" "l \<in> set (split (CHR '','') s)"
      by auto
    with assms(2) have "filter (\<lambda>f. f \<noteq> []) (split (CHR ''|'') l) = []"
      by (simp add: filter_empty_conv)
    then show ?thesis
      by (simp add: parse_level_def groupSpec_parseGroupingLevel_def l(1))
  qed
  then have "map_result (parse_level ty) ?levels
      = Inr (map (\<lambda>x. new_GroupingLevelSpec []) ?levels)"
    by (intro map_result_Inr) simp
  moreover have "GroupingSpec_init (Some (map (\<lambda>x. new_GroupingLevelSpec []) ?levels)) (Some ty)
      no_keyArgs = Inl (ArgumentInvalid ''levelSpecs'' ''Must have at least one element.'')"
    by (rule GroupingSpec_init_no_dimensions) (simp add: new_GroupingLevelSpec_def)
  ultimately show ?thesis
    using assms(1) by (simp add: parse_def new_GroupingSpec_def)
qed

lemma empty_pieces_examples:
  "split (CHR '','') '','' = [[], []]"
  "split (CHR '','') '' , |,'' = [[], ''|'', []]"
  "split (CHR ''|'') ''|'' = [[], []]"
  by code_simp+

text \<open>
  Claim C5, amended. The constructor fails with argument-required when \<^verbatim>\<open>levelSpecs\<close>
  or \<^verbatim>\<open>complexType\<close> is absent, and with argument-invalid when no level has a
  dimension; otherwise it returns. \<open>parse\<close> fails with argument-invalid on an empty
  array, and on every non-empty string all of whose pieces are empty (the levels it
  splits into at the commas split into empty strings only at the bars), such as a lone
  comma. \<open>parse\<close> of the empty string fails with argument-required, as it does when
  the text or the type is absent: the empty string is falsy.
\<close>

theorem construction_errors:
  "GroupingSpec_init None complexType keyArgs = Inl (ArgumentRequired ''levelSpecs'') \<and>
   GroupingSpec_init (Some ls) None keyArgs = Inl (ArgumentRequired ''complexType'') \<and>
   ((\<forall>l\<in>set ls. level_dimensions l = []) \<longrightarrow>
      GroupingSpec_init (Some ls) (Some ty) keyArgs =
        Inl (ArgumentInvalid ''levelSpecs'' ''Must have at least one element.'')) \<and>
   ((\<exists>l\<in>set ls. level_dimensions l \<noteq> []) \<longrightarrow>
      (\<exists>g. GroupingSpec_init (Some ls) (Some ty) keyArgs = Inr g)) \<and>
   parse h (Some (SpecArray [])) (Some ty) =
     (Inl (ArgumentInvalid ''levelSpecs'' ''Must have at least one element.''), h) \<and>
   (s \<noteq> [] \<and> (\<forall>l\<in>set (split (CHR '','') s). \<forall>f\<in>set (split (CHR ''|'') l). f = []) \<longrightarrow>
      parse h (Some (SpecString s)) (Some ty) =
        (Inl (ArgumentInvalid ''levelSpecs'' ''Must have at least one element.''), h)) \<and>
   parse h (Some (SpecString '','')) (Some ty) =
     (Inl (ArgumentInvalid ''levelSpecs'' ''Must have at least one element.''), h) \<and>
   parse h (Some (SpecString [])) type = (Inl (ArgumentRequired ''groupingSpecText''), h) \<and>
   parse h None type = (Inl (ArgumentRequired ''groupingSpecText''), h) \<and>
   (text \<noteq> SpecString [] \<longrightarrow> parse h (Some text) None = (Inl (ArgumentRequired ''type''), h))"
proof (intro conjI impI)
  show "GroupingSpec_init None complexType keyArgs = Inl (ArgumentRequired ''levelSpecs'')"
    by (simp add: GroupingSpec_init_def)
  show "GroupingSpec_init (Some ls) None keyArgs = Inl (ArgumentRequired ''complexType'')"
    by (simp add: GroupingSpec_init_def)
  show "GroupingSpec_init (Some ls) (Some ty) keyArgs =
        Inl (ArgumentInvalid ''levelSpecs'' ''Must have at least one element.'')"
    if "\<forall>l\<in>set ls. level_dimensions l = []"
    using that by (rule GroupingSpec_init_no_dimensions)
  show "\<exists>g. GroupingSpec_init (Some ls) (Some ty) keyArgs = Inr g"
    if "\<exists>l\<in>set ls. level_dimensions l \<noteq> []"
    using that by (rule GroupingSpec_init_succeeds)
  show "parse h (Some (SpecArray [])) (Some ty) =
     (Inl (ArgumentInvalid ''levelSpecs'' ''Must have at least one element.''), h)"
    by (simp add: parse_def new_GroupingSpec_def GroupingSpec_init_def)
  show "parse h (Some (SpecString s)) (Some ty) =
     (Inl (ArgumentInvalid ''levelSpecs'' ''Must have at least one element.''), h)"
    if "s \<noteq> [] \<and> (\<forall>l\<in>set (split (CHR '','') s). \<forall>f\<in>set (split (CHR ''|'') l). f = [])"
    using that by (intro parse_no_dimension) simp_all
  show "parse h (Some (SpecString '','')) (Some ty) =
     (Inl (ArgumentInvalid ''levelSpecs'' ''Must have at least one element.''), h)"
    by (rule parse_no_dimension) (simp_all add: empty_pieces_examples split_empty)
  show "parse h (Some (SpecString [])) type = (Inl (ArgumentRequired ''groupingSpecText''), h)"
    by (simp add: parse_def)
  show "parse h None type = (Inl (ArgumentRequired ''groupingSpecText''), h)"
    by (simp add: parse_def)
  show "parse h (Some text) None = (Inl (ArgumentRequired ''type''), h)" if "text \<noteq> SpecString []"
    using that by (simp add: parse_def)
qed

theorem construction_errors_witness:
  "GroupingSpec_init (Some [new_GroupingLevelSpec []]) (Some example_type) no_keyArgs =
     Inl (ArgumentInvalid ''levelSpecs'' ''Must have at least one element.'') \<and>
   (\<exists>g. GroupingSpec_init (Some example_levels) (Some example_type) no_keyArgs = Inr g) \<and>
   split (CHR '','') '' , |,'' = [[], ''|'', []] \<and> split (CHR ''|'') ''|'' = [[], []] \<and>
   parse [] (Some (SpecString '' , |,'')) (Some example_type) =
     (Inl (ArgumentInvalid ''levelSpecs'' ''Must have at least one element.''), []) \<and>
   parse [] (Some (SpecString ''category'')) (None :: int ComplexType option) =
     (Inl (ArgumentRequired ''type''), [])"
proof -
  have none: "\<forall>l\<in>set [new_GroupingLevelSpec []]. level_dimensions l = ([] :: int GroupingDimensionSpec list)"
    by (simp add: new_GroupingLevelSpec_def)
  have some: "\<exists>l\<in>set example_levels. level_dimensions l \<noteq> []"
    by (simp add: example_levels_def series_level_def new_GroupingLevelSpec_def
          series_dimensions_def)
  have pieces: "'' , |,'' \<noteq> [] \<and>
      (\<forall>l\<in>set (split (CHR '','') '' , |,''). \<forall>f\<in>set (split (CHR ''|'') l). f = [])"
    by (simp add: empty_pieces_examples split_empty)
  have nonempty: "SpecString ''category'' \<noteq> SpecString []"
    by simp
  note first = construction_errors [of _ no_keyArgs "[new_GroupingLevelSpec []]" example_type
      "[]" "'' , |,''" _ "SpecString ''category''"]
  note second = construction_errors [of _ no_keyArgs example_levels example_type
      "[]" "'' , |,''" _ "SpecString ''category''"]
  from none first
  have a: "GroupingSpec_init (Some [new_GroupingLevelSpec []]) (Some example_type) no_keyArgs =
     Inl (ArgumentInvalid ''levelSpecs'' ''Must have at least one element.'')"
    by blast
  from some second
  have b: "\<exists>g. GroupingSpec_init (Some example_levels) (Some example_type) no_keyArgs = Inr g"
    by blast
  from pieces first
  have c: "parse [] (Some (SpecString '' , |,'')) (Some example_type) =
     (Inl (ArgumentInvalid ''levelSpecs'' ''Must have at least one element.''), [])"
    by blast
  from nonempty first
  have d: "parse [] (Some (SpecString ''category'')) (None :: int ComplexType option) =
     (Inl (ArgumentRequired ''type''), [])"
    by blast
  from a b c d show ?thesis
    by (simp add: empty_pieces_examples)
qed

text \<open>
  Claim C5 as stated fails on the empty string: \<open>parse\<close> throws argument-required
  for \<^verbatim>\<open>groupingSpecText\<close>, not argument-invalid.
\<close>

theorem parse_empty_string_counterexample:
  "parse [] (Some (SpecString '''')) (Some example_type) =
     (Inl (ArgumentRequired ''groupingSpecText''), [])"
  by (simp add: parse_def)

section \<open>Derived grouping specifications\<close>

subsection \<open>Well-formed specifications\<close>

lemma truthy_string_idem [simp]: "truthy_string (truthy_string x) = truthy_string x"
  by (simp add: truthy_string_def split: option.splits)

lemma string_or_empty_simps [simp]:
  "string_or_empty (Some s) = s" "string_or_empty None = []"
  by (simp_all add: string_or_empty_def)

lemma clear_caches_fields [simp]:
  "levels (clear_caches g) = levels g" "spec_type (clear_caches g) = spec_type g"
  "flatteningMode (clear_caches g) = flatteningMode g"
  "flattenRootLabel (clear_caches g) = flattenRootLabel g"
  "depth (clear_caches g) = depth g" "isSingleLevel (clear_caches g) = isSingleLevel g"
  "spec_id (clear_caches g) = spec_id g"
  "hasCompositeLevels (clear_caches g) = hasCompositeLevels g"
  "isSingleDimension (clear_caches g) = isSingleDimension g"
  "firstDimension (clear_caches g) = firstDimension g"
  by (simp_all add: clear_caches_def)

lemma clear_caches_update [simp]:
  "clear_caches (g\<lparr> cached_reverseGrouping := x \<rparr>) = clear_caches g"
  "clear_caches (g\<lparr> cached_singleLevelGrouping := y \<rparr>) = clear_caches g"
  "clear_caches (g\<lparr> cached_dimNames := z \<rparr>) = clear_caches g"
  by (simp_all add: clear_caches_def)

lemma constructed_spec_fields [simp]:
  "levels (constructed_spec ty ls mode label) = ls"
  "spec_type (constructed_spec ty ls mode label) = ty"
  "flatteningMode (constructed_spec ty ls mode label) = mode"
  "flattenRootLabel (constructed_spec ty ls mode label) = label"
  "depth (constructed_spec ty ls mode label) = length ls"
  "isSingleLevel (constructed_spec ty ls mode label) = (length ls = 1)"
  "cached_dimNames (constructed_spec ty ls mode label) = None"
  "cached_singleLevelGrouping (constructed_spec ty ls mode label) = None"
  "cached_reverseGrouping (constructed_spec ty ls mode label) = None"
  by (simp_all add: constructed_spec_def)

lemma clear_caches_constructed [simp]:
  "clear_caches (constructed_spec ty ls mode label) = constructed_spec ty ls mode label"
  by (simp add: constructed_spec_def clear_caches_def)

text \<open>What a well-formed specification is made of.\<close>

lemma well_formed_specD:
  assumes "well_formed_spec g"
  shows "levels g \<noteq> []" and "\<forall>l\<in>set (levels g). level_dimensions l \<noteq> [] \<and> well_formed_level l"
    and "truthy_string (flatteningMode g) = flatteningMode g"
    and "clear_caches g =
           constructed_spec (spec_type g) (levels g) (flatteningMode g) (flattenRootLabel g)"
proof -
  let ?kw = "\<lparr> kw_flatteningMode = flatteningMode g,
          kw_flattenRootLabel = Some (flattenRootLabel g), kw_reverse = False \<rparr>"
  let ?retained = "filter (\<lambda>l. level_dimensions l \<noteq> []) (levels g)"
  from assms have init: "GroupingSpec_init (Some (levels g)) (Some (spec_type g)) ?kw
      = Inr (clear_caches g)"
    and wl: "\<forall>l\<in>set (levels g). well_formed_level l"
    by (simp_all add: well_formed_spec_def)
  note r = GroupingSpec_init_Inr [OF init]
  from r(2) have "levels (clear_caches g) = ?retained" by simp
  then have same: "?retained = levels g" by simp
  from r(1) same show "levels g \<noteq> []" by simp
  from same have "\<forall>l\<in>set (levels g). level_dimensions l \<noteq> []"
    by (simp add: filter_id_conv)
  with wl show "\<forall>l\<in>set (levels g). level_dimensions l \<noteq> [] \<and> well_formed_level l"
    by simp
  from r(2) have "flatteningMode (clear_caches g) = truthy_string (flatteningMode g)" by simp
  then show tm: "truthy_string (flatteningMode g) = flatteningMode g" by simp
  from r(2) show "clear_caches g =
           constructed_spec (spec_type g) (levels g) (flatteningMode g) (flattenRootLabel g)"
    by (simp add: same tm)
qed

text \<open>The constructor's result is well formed when the retained levels are.\<close>

lemma constructed_well_formed:
  assumes "ls \<noteq> []" and "\<forall>l\<in>set ls. level_dimensions l \<noteq> [] \<and> well_formed_level l"
  shows "well_formed_spec (constructed_spec ty ls (truthy_string mode) label)"
proof -
  have "filter (\<lambda>l. level_dimensions l \<noteq> []) ls = ls"
    using assms(2) by (simp add: filter_id_conv)
  then show ?thesis
    using assms GroupingSpec_init_retained [of ls ty
        "\<lparr> kw_flatteningMode = truthy_string mode, kw_flattenRootLabel = Some label,
           kw_reverse = False \<rparr>"]
    by (simp add: well_formed_spec_def)
qed

lemma init_well_formed:
  assumes g: "GroupingSpec_init (Some ls) (Some ty) keyArgs = Inr g"
    and ls: "\<forall>l\<in>set ls. level_dimensions l \<noteq> [] \<longrightarrow> well_formed_level l"
  shows "well_formed_spec g"
proof -
  note r = GroupingSpec_init_Inr [OF g]
  show ?thesis
    unfolding r(2) using r(1) ls by (intro constructed_well_formed) auto
qed

text \<open>Reversing the dimensions of well-formed levels.\<close>

lemma reverse_dimensions_twice:
  assumes "\<forall>d\<in>set dims. d = new_GroupingDimensionSpec (dim_type d) (dim_reverse d)"
  shows "reverse_dimensions (reverse_dimensions dims) = dims"
proof -
  have "new_GroupingDimensionSpec
          (dim_type (new_GroupingDimensionSpec (dim_type d) (\<not> dim_reverse d)))
          (\<not> dim_reverse (new_GroupingDimensionSpec (dim_type d) (\<not> dim_reverse d))) = d"
    if "d \<in> set dims" for d
  proof -
    have "new_GroupingDimensionSpec (dim_type d) (dim_reverse d) = d"
      using assms that by simp
    then show ?thesis
      by (simp add: new_GroupingDimensionSpec_def)
  qed
  then show ?thesis
    by (simp add: reverse_dimensions_def map_idI)
qed

lemma reverse_dimensions_well_formed:
  "\<forall>d\<in>set (reverse_dimensions dims). d = new_GroupingDimensionSpec (dim_type d) (dim_reverse d)"
  by (auto simp: reverse_dimensions_def new_GroupingDimensionSpec_def)

lemma new_level_well_formed:
  "\<forall>d\<in>set dims. d = new_GroupingDimensionSpec (dim_type d) (dim_reverse d) \<Longrightarrow>
   well_formed_level (new_GroupingLevelSpec dims)"
  by (simp add: well_formed_level_def new_GroupingLevelSpec_def)

lemma reversed_levels_eq:
  "reversed_levels g =
     map (\<lambda>l. new_GroupingLevelSpec (reverse_dimensions (level_dimensions l))) (levels g)"
  by (simp add: reversed_levels_def reverse_dimensions_def)

lemma level_dimensions_new [simp]: "level_dimensions (new_GroupingLevelSpec dims) = dims"
  by (simp add: new_GroupingLevelSpec_def)

lemma reverse_dimensions_empty [simp]: "reverse_dimensions dims = [] \<longleftrightarrow> dims = []"
  by (simp add: reverse_dimensions_def)

lemma reversed_spec_well_formed:
  assumes "well_formed_spec g"
  shows "reversed_spec g =
           Inr (constructed_spec (spec_type g) (reversed_levels g) (flatteningMode g) [])"
    and "well_formed_spec (constructed_spec (spec_type g) (reversed_levels g) (flatteningMode g) [])"
proof -
  note d = well_formed_specD [OF assms]
  have ne: "\<forall>l\<in>set (reversed_levels g). level_dimensions l \<noteq> [] \<and> well_formed_level l"
    using d(2) by (auto simp: reversed_levels_eq reverse_dimensions_well_formed new_level_well_formed)
  then have "filter (\<lambda>l. level_dimensions l \<noteq> []) (reversed_levels g) = reversed_levels g"
    by (simp add: filter_id_conv)
  moreover have ne': "reversed_levels g \<noteq> []"
    using d(1) by (simp add: reversed_levels_eq)
  ultimately show "reversed_spec g =
           Inr (constructed_spec (spec_type g) (reversed_levels g) (flatteningMode g) [])"
    using GroupingSpec_init_retained [of "reversed_levels g" "spec_type g"
        "\<lparr> kw_flatteningMode = flatteningMode g, kw_flattenRootLabel = None, kw_reverse = False \<rparr>"]
    by (simp add: reversed_spec_def d(3))
  show "well_formed_spec (constructed_spec (spec_type g) (reversed_levels g) (flatteningMode g) [])"
    using constructed_well_formed [OF ne' ne, of "spec_type g" "flatteningMode g" "[]"]
    by (simp add: d(3))
qed

lemma reversed_levels_twice:
  assumes "well_formed_spec g"
  shows "reversed_levels (constructed_spec ty (reversed_levels g) mode label) = levels g"
proof -
  note d = well_formed_specD [OF assms]
  have "new_GroupingLevelSpec (reverse_dimensions (reverse_dimensions (level_dimensions l))) = l"
    if "l \<in> set (levels g)" for l
  proof -
    from d(2) that have wl: "well_formed_level l" by simp
    then have "reverse_dimensions (reverse_dimensions (level_dimensions l)) = level_dimensions l"
      by (intro reverse_dimensions_twice) (simp add: well_formed_level_def)
    with wl show ?thesis by (simp add: well_formed_level_def)
  qed
  then show ?thesis
    by (simp add: reversed_levels_eq map_idI)
qed

subsection \<open>Well-formed heaps\<close>

lemma same_core:
  assumes "clear_caches g = clear_caches g'"
  shows "levels g = levels g'" "spec_type g = spec_type g'"
    "flatteningMode g = flatteningMode g'" "flattenRootLabel g = flattenRootLabel g'"
    "isSingleLevel g = isSingleLevel g'"
proof -
  have "levels (clear_caches g) = levels (clear_caches g')"
    "spec_type (clear_caches g) = spec_type (clear_caches g')"
    "flatteningMode (clear_caches g) = flatteningMode (clear_caches g')"
    "flattenRootLabel (clear_caches g) = flattenRootLabel (clear_caches g')"
    "isSingleLevel (clear_caches g) = isSingleLevel (clear_caches g')"
    using assms by simp_all
  then show "levels g = levels g'" "spec_type g = spec_type g'"
    "flatteningMode g = flatteningMode g'" "flattenRootLabel g = flattenRootLabel g'"
    "isSingleLevel g = isSingleLevel g'"
    by simp_all
qed

lemma same_core_derived:
  assumes "clear_caches g = clear_caches g'"
  shows "well_formed_spec g = well_formed_spec g'" "reversed_spec g = reversed_spec g'"
    "singleLevel_spec g b = singleLevel_spec g' b" "dimensions g = dimensions g'"
    "reversed_levels g = reversed_levels g'"
  using assms same_core [OF assms]
  by (simp_all add: well_formed_spec_def reversed_spec_def singleLevel_spec_def
        reversed_levels_def singleLevel_dimSpecs_def dimensions_def)

lemma cache_update_derived [simp]:
  "well_formed_spec (g\<lparr> cached_reverseGrouping := x \<rparr>) = well_formed_spec g"
  "well_formed_spec (g\<lparr> cached_singleLevelGrouping := y \<rparr>) = well_formed_spec g"
  "reversed_spec (g\<lparr> cached_reverseGrouping := x \<rparr>) = reversed_spec g"
  "reversed_spec (g\<lparr> cached_singleLevelGrouping := y \<rparr>) = reversed_spec g"
  "singleLevel_spec (g\<lparr> cached_reverseGrouping := x \<rparr>) b = singleLevel_spec g b"
  "singleLevel_spec (g\<lparr> cached_singleLevelGrouping := y \<rparr>) b = singleLevel_spec g b"
  by (simp_all add: same_core_derived [of "g\<lparr> cached_reverseGrouping := x \<rparr>" g]
        same_core_derived [of "g\<lparr> cached_singleLevelGrouping := y \<rparr>" g])

text \<open>
  A heap that grows, keeps every old object up to its caches, and keeps the caches of
  the object at \<open>q\<close>, keeps that object well formed.
\<close>

lemma well_formed_object_frame:
  assumes ok: "well_formed_object h q" and q: "q < length h" and len: "length h \<le> length h'"
    and core: "\<forall>p<length h. clear_caches (h' ! p) = clear_caches (h ! p)"
    and rc: "cached_reverseGrouping (h' ! q) = cached_reverseGrouping (h ! q)"
    and sc: "cached_singleLevelGrouping (h' ! q) = cached_singleLevelGrouping (h ! q)"
  shows "well_formed_object h' q"
proof -
  have cq: "clear_caches (h' ! q) = clear_caches (h ! q)"
    using core q by simp
  note dq = same_core_derived [OF cq]
  have entry: "cache_entry_ok h' q r' built" if "cache_entry_ok h q r' built" for r' built
  proof -
    from that have "r' < length h" by (simp add: cache_entry_ok_def)
    with core have "clear_caches (h' ! r') = clear_caches (h ! r')" by simp
    with that len show ?thesis by (simp add: cache_entry_ok_def)
  qed
  from ok show ?thesis
    unfolding well_formed_object_def dq rc sc
    by (blast intro: entry)
qed

lemma new_object_well_formed:
  assumes "well_formed_spec g" "cached_reverseGrouping g = None"
    "cached_singleLevelGrouping g = None" "r < length h" "h ! r = g"
  shows "well_formed_object h r"
  using assms by (simp add: well_formed_object_def)

text \<open>Allocation keeps the heap well formed.\<close>

lemma append_well_formed:
  assumes wf: "well_formed_heap h" and g: "well_formed_spec g"
    and c: "cached_reverseGrouping g = None" "cached_singleLevelGrouping g = None"
  shows "well_formed_heap (h @ [g])"
  unfolding well_formed_heap_def
proof (intro allI impI)
  fix r assume "r < length (h @ [g])"
  then consider "r < length h" | "r = length h" by fastforce
  then show "well_formed_object (h @ [g]) r"
  proof cases
    case 1
    with wf have "well_formed_object h r" by (simp add: well_formed_heap_def)
    then show ?thesis
      using 1 by (rule well_formed_object_frame) (use 1 in \<open>simp_all add: nth_append\<close>)
  next
    case 2
    then show ?thesis
      using g c by (intro new_object_well_formed [where g = g]) simp_all
  qed
qed

text \<open>\<open>reversed\<close> on a well-formed heap.\<close>

lemma reversed_well_formed:
  assumes wf: "well_formed_heap h" and g: "g < length h"
  shows "\<exists>r h'. reversed h g = (Inr r, h') \<and> well_formed_heap h' \<and> g < r \<and> r < length h' \<and>
           length h \<le> length h' \<and>
           (\<forall>p<length h. clear_caches (h' ! p) = clear_caches (h ! p)) \<and>
           reversed_spec (h ! g) = Inr (clear_caches (h' ! r))"
proof (cases "cached_reverseGrouping (h ! g)")
  case (Some r)
  from wf g have "well_formed_object h g" by (simp add: well_formed_heap_def)
  with Some have "cache_entry_ok h g r (reversed_spec (h ! g))"
    by (simp add: well_formed_object_def)
  then show ?thesis
    using Some wf by (simp add: reversed_def cache_entry_ok_def)
next
  case None
  let ?o = "constructed_spec (spec_type (h ! g)) (reversed_levels (h ! g)) (flatteningMode (h ! g)) []"
  let ?g' = "(h ! g)\<lparr> cached_reverseGrouping := Some (length h) \<rparr>"
  let ?h' = "(h @ [?o])[g := ?g']"
  from wf g have og: "well_formed_object h g" by (simp add: well_formed_heap_def)
  then have wg: "well_formed_spec (h ! g)" by (simp add: well_formed_object_def)
  note rs = reversed_spec_well_formed [OF wg]
  have run: "reversed h g = (Inr (length h), ?h')"
    using None rs(1) g
    by (simp add: reversed_def new_GroupingSpec_def reversed_spec_def [symmetric] nth_append)
  have wf1: "well_formed_heap (h @ [?o])"
    using wf rs(2) by (intro append_well_formed) simp_all
  have core: "\<forall>p<length (h @ [?o]). clear_caches (?h' ! p) = clear_caches ((h @ [?o]) ! p)"
    using g by (auto simp: nth_list_update nth_append)
  have "well_formed_heap ?h'"
    unfolding well_formed_heap_def
  proof (intro allI impI)
    fix q assume q: "q < length ?h'"
    then have q1: "q < length (h @ [?o])" by simp
    with wf1 have oq: "well_formed_object (h @ [?o]) q" by (simp add: well_formed_heap_def)
    show "well_formed_object ?h' q"
    proof (cases "q = g")
      case False
      from oq q1 show ?thesis
        by (rule well_formed_object_frame) (use core False in \<open>simp_all add: nth_list_update\<close>)
    next
      case True
      have cg: "clear_caches (?h' ! g) = clear_caches (h ! g)"
        using g by (simp add: nth_append)
      note dq = same_core_derived [OF cg]
      have hg: "?h' ! g = ?g'" using g by (simp add: nth_append)
      have "cache_entry_ok ?h' g (length h) (reversed_spec (?h' ! g))"
        using g rs(1) by (simp add: cache_entry_ok_def dq nth_append)
      moreover have "cache_entry_ok ?h' g r' (singleLevel_spec (?h' ! g) b)"
        if "cached_singleLevelGrouping (h ! g) = Some c" "c b = Some r'" for c b r'
      proof -
        from og that have e: "cache_entry_ok h g r' (singleLevel_spec (h ! g) b)"
          by (simp add: well_formed_object_def)
        then have "g < r'" "r' < length h" by (simp_all add: cache_entry_ok_def)
        then have "?h' ! r' = h ! r'" by (simp add: nth_append)
        with e show ?thesis by (simp add: cache_entry_ok_def dq)
      qed
      moreover have "well_formed_spec (?h' ! g)"
        using wg by (simp add: dq)
      ultimately show ?thesis
        unfolding True well_formed_object_def by (simp add: hg)
    qed
  qed
  moreover have "reversed_spec (h ! g) = Inr (clear_caches (?h' ! length h))"
    using g rs(1) by (simp add: nth_append)
  moreover have "\<forall>p<length h. clear_caches (?h' ! p) = clear_caches (h ! p)"
    using core by (simp add: nth_append)
  ultimately show ?thesis
    using run g by simp
qed

text \<open>The example heap.\<close>

lemma example_levels_well_formed:
  "well_formed_level series_level" "well_formed_level category_level"
  by (simp_all add: series_level_def category_level_def series_dimensions_def
        new_level_well_formed new_GroupingDimensionSpec_def)

lemma example_heap_eq:
  "example_heap = [constructed_spec example_type [series_level, category_level] None []]"
  using GroupingSpec_init_retained [of example_levels example_type no_keyArgs]
  by (simp add: example_heap_def new_GroupingSpec_def example_retained no_keyArgs_def
        truthy_string_def)

lemma example_heap_well_formed: "well_formed_heap example_heap"
proof -
  have "well_formed_heap ([] :: int heap)"
    by (simp add: well_formed_heap_def)
  moreover have "well_formed_spec
      (constructed_spec example_type [series_level, category_level] (truthy_string None) [])"
  proof (rule constructed_well_formed)
    show "[series_level, category_level] \<noteq> []" by simp
    have "level_dimensions series_level \<noteq> []" "level_dimensions category_level \<noteq> []"
      using example_level_ids(3,4) by auto
    then show "\<forall>l\<in>set [series_level, category_level].
        level_dimensions l \<noteq> [] \<and> well_formed_level l"
      by (simp add: example_levels_well_formed)
  qed
  ultimately have "well_formed_heap
      ([] @ [constructed_spec example_type [series_level, category_level] (truthy_string None) []])"
    by (rule append_well_formed) simp_all
  then show ?thesis
    by (simp add: example_heap_eq truthy_string_def)
qed

lemma example_heap_object:
  "length example_heap = 1" "levels (example_heap ! 0) = [series_level, category_level]"
  "depth (example_heap ! 0) = 2" "\<not> isSingleLevel (example_heap ! 0)"
  "flatteningMode (example_heap ! 0) = None" "flattenRootLabel (example_heap ! 0) = []"
  by (simp_all add: example_heap_eq)

lemma series_level_compare:
  "compare series_level datum_1_5 datum_1_7 = Inr 1"
  by (simp add: series_level_def compare_new_level compareDatums_def example_defs)

subsection \<open>Reversing twice\<close>

text \<open>
  Claim C6. On a well-formed heap, \<open>reversed\<close> of a grouping specification and
  \<open>reversed\<close> of the result both return; the second result is another object than the
  original, has the same depth, and each of its levels compares every two datums as
  the level of the original at the same index does.
\<close>

theorem reversed_twice_comparator_equivalent:
  assumes "well_formed_heap h" and "g < length h"
  shows "\<exists>r1 h1 r2 h2.
           reversed h g = (Inr r1, h1) \<and> reversed h1 r1 = (Inr r2, h2) \<and>
           r2 \<noteq> g \<and> r2 < length h2 \<and> depth (h2 ! r2) = depth (h ! g) \<and>
           (\<forall>i<depth (h ! g). \<forall>a b.
              compare (levels (h2 ! r2) ! i) a b = compare (levels (h ! g) ! i) a b)"
proof -
  from reversed_well_formed [OF assms] obtain r1 h1 where
    1: "reversed h g = (Inr r1, h1)" "well_formed_heap h1" "g < r1" "r1 < length h1"
       "reversed_spec (h ! g) = Inr (clear_caches (h1 ! r1))"
    by blast
  from reversed_well_formed [OF 1(2) 1(4)] obtain r2 h2 where
    2: "reversed h1 r1 = (Inr r2, h2)" "r1 < r2" "r2 < length h2"
       "reversed_spec (h1 ! r1) = Inr (clear_caches (h2 ! r2))"
    by blast
  from assms have wg: "well_formed_spec (h ! g)"
    by (simp add: well_formed_heap_def well_formed_object_def)
  from 1(2,4) have w1: "well_formed_spec (h1 ! r1)"
    by (simp add: well_formed_heap_def well_formed_object_def)
  let ?o1 = "constructed_spec (spec_type (h ! g)) (reversed_levels (h ! g)) (flatteningMode (h ! g)) []"
  have c1: "clear_caches (h1 ! r1) = ?o1"
    using 1(5) reversed_spec_well_formed(1) [OF wg] by simp
  have "clear_caches (h1 ! r1) = clear_caches ?o1"
    using c1 by simp
  note d1 = same_core_derived [OF this]
  have "clear_caches (h2 ! r2) =
      constructed_spec (spec_type (h1 ! r1)) (reversed_levels (h1 ! r1)) (flatteningMode (h1 ! r1)) []"
    using 2(4) reversed_spec_well_formed(1) [OF w1] by simp
  then have "levels (clear_caches (h2 ! r2)) = reversed_levels (h1 ! r1)"
    by simp
  then have lv: "levels (h2 ! r2) = levels (h ! g)"
    by (simp add: d1 reversed_levels_twice [OF wg])
  have dg: "depth (h ! g) = length (levels (h ! g))"
    using well_formed_specD(4) [OF wg] by (metis clear_caches_fields(1,5) constructed_spec_fields(1,5))
  from 1(2) 2 1(4) have "well_formed_heap h2 \<and> r2 < length h2"
    using reversed_well_formed [OF 1(2) 1(4)] by auto
  then have w2: "well_formed_spec (h2 ! r2)"
    by (simp add: well_formed_heap_def well_formed_object_def)
  have d2: "depth (h2 ! r2) = length (levels (h2 ! r2))"
    using well_formed_specD(4) [OF w2] by (metis clear_caches_fields(1,5) constructed_spec_fields(1,5))
  from 1(1) 2(1) 1(3) 2(2) 2(3) lv dg d2 show ?thesis
    by simp
qed

theorem reversed_twice_comparator_equivalent_witness:
  "\<exists>r1 h1 r2 h2.
     reversed example_heap 0 = (Inr r1, h1) \<and> reversed h1 r1 = (Inr r2, h2) \<and> r2 \<noteq> 0 \<and>
     depth (h2 ! r2) = 2 \<and> compare (levels (h2 ! r2) ! 0) datum_1_5 datum_1_7 = Inr 1"
proof -
  have "0 < length example_heap" by (simp add: example_heap_object)
  from reversed_twice_comparator_equivalent [OF example_heap_well_formed this]
  obtain r1 h1 r2 h2 where
    r: "reversed example_heap 0 = (Inr r1, h1)" "reversed h1 r1 = (Inr r2, h2)" "r2 \<noteq> 0"
       "depth (h2 ! r2) = depth (example_heap ! 0)"
       "\<forall>i<depth (example_heap ! 0). \<forall>a b.
          compare (levels (h2 ! r2) ! i) a b = compare (levels (example_heap ! 0) ! i) a b"
    by blast
  from r(5) have "compare (levels (h2 ! r2) ! 0) datum_1_5 datum_1_7 = Inr 1"
    by (simp add: example_heap_object series_level_compare)
  with r(1-4) show ?thesis
    by (auto simp: example_heap_object)
qed

subsection \<open>The single-level grouping\<close>

lemma dimensions_well_formed:
  assumes "well_formed_spec g"
  shows "dimensions g \<noteq> []"
    and "\<forall>d\<in>set (dimensions g). d = new_GroupingDimensionSpec (dim_type d) (dim_reverse d)"
proof -
  note d = well_formed_specD [OF assms]
  from d(1) obtain l ls where "levels g = l # ls" by (cases "levels g") auto
  with d(2) show "dimensions g \<noteq> []" by (simp add: dimensions_def)
  show "\<forall>d\<in>set (dimensions g). d = new_GroupingDimensionSpec (dim_type d) (dim_reverse d)"
    using d(2) by (auto simp: dimensions_def well_formed_level_def)
qed

lemma singleLevel_dimSpecs_eq:
  "singleLevel_dimSpecs g reverse =
     (if reverse then reverse_dimensions (dimensions g) else dimensions g)"
  by (simp add: singleLevel_dimSpecs_def reverse_dimensions_def)

lemma singleLevel_spec_well_formed:
  assumes "well_formed_spec g"
  shows "singleLevel_spec g b =
           Inr (constructed_spec (spec_type g) [new_GroupingLevelSpec (singleLevel_dimSpecs g b)]
                  (flatteningMode g) [])"
    and "well_formed_spec
           (constructed_spec (spec_type g) [new_GroupingLevelSpec (singleLevel_dimSpecs g b)]
              (flatteningMode g) [])"
proof -
  note d = well_formed_specD [OF assms]
  note dims = dimensions_well_formed [OF assms]
  let ?l = "new_GroupingLevelSpec (singleLevel_dimSpecs g b)"
  have ne: "level_dimensions ?l \<noteq> []"
    using dims(1) by (simp add: singleLevel_dimSpecs_eq)
  have wl: "well_formed_level ?l"
    using dims(2) by (intro new_level_well_formed)
      (simp add: singleLevel_dimSpecs_eq reverse_dimensions_well_formed)
  have "filter (\<lambda>l. level_dimensions l \<noteq> []) [?l] = [?l]"
    using ne by simp
  then show "singleLevel_spec g b =
           Inr (constructed_spec (spec_type g) [?l] (flatteningMode g) [])"
    using GroupingSpec_init_retained [of "[?l]" "spec_type g"
        "\<lparr> kw_flatteningMode = flatteningMode g, kw_flattenRootLabel = None, kw_reverse = False \<rparr>"]
    by (simp add: singleLevel_spec_def d(3))
  show "well_formed_spec (constructed_spec (spec_type g) [?l] (flatteningMode g) [])"
    using constructed_well_formed [of "[?l]" "spec_type g" "flatteningMode g" "[]"] ne wl
    by (simp add: d(3))
qed

text \<open>\<open>singleLevelGrouping\<close> on a well-formed heap, when it does not return \<open>this\<close>.\<close>

lemma singleLevelGrouping_well_formed:
  assumes wf: "well_formed_heap h" and g: "g < length h"
    and other: "\<not> (isSingleLevel (h ! g) \<and> \<not> kw_reverse keyArgs)"
  shows "\<exists>r h'. singleLevelGrouping h g keyArgs = (Inr r, h') \<and> well_formed_heap h' \<and> g < r \<and>
           r < length h' \<and> length h \<le> length h' \<and>
           (\<forall>p<length h. clear_caches (h' ! p) = clear_caches (h ! p)) \<and>
           singleLevel_spec (h ! g) (kw_reverse keyArgs) = Inr (clear_caches (h' ! r))"
proof -
  let ?b = "kw_reverse keyArgs"
  let ?cache = "case cached_singleLevelGrouping (h ! g) of None \<Rightarrow> Map.empty | Some c \<Rightarrow> c"
  let ?g1 = "(h ! g)\<lparr> cached_singleLevelGrouping := Some ?cache \<rparr>"
  let ?h1 = "h[g := ?g1]"
  from wf g have og: "well_formed_object h g" by (simp add: well_formed_heap_def)
  then have wg: "well_formed_spec (h ! g)" by (simp add: well_formed_object_def)
  have entries: "cache_entry_ok h g r' (singleLevel_spec (h ! g) b)" if "?cache b = Some r'" for b r'
    using og that by (auto simp: well_formed_object_def split: option.splits)
  have core1: "\<forall>p<length h. clear_caches (?h1 ! p) = clear_caches (h ! p)"
    using g by (auto simp: nth_list_update)
  have wf1: "well_formed_heap ?h1"
    unfolding well_formed_heap_def
  proof (intro allI impI)
    fix q assume "q < length ?h1"
    then have q: "q < length h" by simp
    with wf have oq: "well_formed_object h q" by (simp add: well_formed_heap_def)
    show "well_formed_object ?h1 q"
    proof (cases "q = g")
      case False
      from oq q show ?thesis
        by (rule well_formed_object_frame) (use False core1 in \<open>simp_all\<close>)
    next
      case True
      have hg: "?h1 ! g = ?g1" using g by simp
      have e1: "cache_entry_ok ?h1 g r' built" if "cache_entry_ok h g r' built" for r' built
      proof -
        from that have "g < r'" by (simp add: cache_entry_ok_def)
        then have "?h1 ! r' = h ! r'" by simp
        with that show ?thesis by (simp add: cache_entry_ok_def)
      qed
      have "cache_entry_ok ?h1 g r' (reversed_spec (h ! g))"
        if "cached_reverseGrouping (h ! g) = Some r'" for r'
        using og that by (intro e1) (simp add: well_formed_object_def)
      moreover have "cache_entry_ok ?h1 g r' (singleLevel_spec (h ! g) b)"
        if "?cache b = Some r'" for b r'
        using that by (intro e1 entries)
      ultimately show ?thesis
        unfolding True well_formed_object_def hg using wg by simp
    qed
  qed
  show ?thesis
  proof (cases "?cache ?b")
    case (Some r)
    have run: "singleLevelGrouping h g keyArgs = (Inr r, ?h1)"
      using other Some by (auto simp: singleLevelGrouping_def Let_def)
    from entries [OF Some] have e: "g < r" "r < length h"
        "singleLevel_spec (h ! g) ?b = Inr (clear_caches (h ! r))"
      by (simp_all add: cache_entry_ok_def)
    then have "?h1 ! r = h ! r" by simp
    with run wf1 e core1 show ?thesis by simp
  next
    case None
    let ?o = "constructed_spec (spec_type (h ! g))
                [new_GroupingLevelSpec (singleLevel_dimSpecs (h ! g) ?b)] (flatteningMode (h ! g)) []"
    let ?g2 = "?g1\<lparr> cached_singleLevelGrouping := Some (?cache(?b \<mapsto> length h)) \<rparr>"
    let ?h2 = "(?h1 @ [?o])[g := ?g2]"
    note ss = singleLevel_spec_well_formed [OF wg, of ?b]
    have hg: "?h1 ! g = ?g1" using g by simp
    have sd: "singleLevel_dimSpecs ?g1 ?b = singleLevel_dimSpecs (h ! g) ?b"
      by (simp add: singleLevel_dimSpecs_def dimensions_def)
    have run: "singleLevelGrouping h g keyArgs = (Inr (length h), ?h2)"
    proof -
      have "new_GroupingSpec ?h1
              (Some [new_GroupingLevelSpec (singleLevel_dimSpecs (?h1 ! g) ?b)])
              (Some (spec_type (?h1 ! g)))
              \<lparr> kw_flatteningMode = flatteningMode (?h1 ! g),
                kw_flattenRootLabel = None, kw_reverse = False \<rparr>
            = (Inr (length h), ?h1 @ [?o])"
        using ss(1) by (simp add: new_GroupingSpec_def hg sd singleLevel_spec_def)
      then show ?thesis
        using other None g
        by (auto simp: singleLevelGrouping_def Let_def nth_append simp del: fun_upd_apply)
    qed
    have wfa: "well_formed_heap (?h1 @ [?o])"
      using wf1 ss(2) by (intro append_well_formed) simp_all
    have core2: "\<forall>p<length (?h1 @ [?o]). clear_caches (?h2 ! p) = clear_caches ((?h1 @ [?o]) ! p)"
      using g by (auto simp: nth_list_update nth_append simp del: fun_upd_apply)
    have old: "?h2 ! r' = h ! r'" if "g < r'" "r' < length h" for r'
      using that by (simp add: nth_append)
    have e2: "cache_entry_ok ?h2 g r' built" if "cache_entry_ok h g r' built" for r' built
      using that old [of r'] by (simp add: cache_entry_ok_def del: fun_upd_apply)
    have "well_formed_heap ?h2"
      unfolding well_formed_heap_def
    proof (intro allI impI)
      fix q assume "q < length ?h2"
      then have q: "q < length (?h1 @ [?o])" by simp
      with wfa have oq: "well_formed_object (?h1 @ [?o]) q" by (simp add: well_formed_heap_def)
      show "well_formed_object ?h2 q"
      proof (cases "q = g")
        case False
        from oq q show ?thesis
          by (rule well_formed_object_frame) (use False core2 in \<open>simp_all del: fun_upd_apply\<close>)
      next
        case True
        have hg2: "?h2 ! g = ?g2" using g by (simp add: nth_append del: fun_upd_apply)
        have "cache_entry_ok ?h2 g r' (reversed_spec (h ! g))"
          if "cached_reverseGrouping (h ! g) = Some r'" for r'
          using og that by (intro e2) (simp add: well_formed_object_def)
        moreover have "cache_entry_ok ?h2 g r' (singleLevel_spec (h ! g) b)"
          if "(?cache(?b \<mapsto> length h)) b = Some r'" for b r'
        proof (cases "b = ?b")
          case True
          with that have "r' = length h" by simp
          then show ?thesis
            using g ss(1) True by (simp add: cache_entry_ok_def nth_append del: fun_upd_apply)
        next
          case False
          with that have "?cache b = Some r'" by simp
          then show ?thesis by (intro e2 entries)
        qed
        ultimately show ?thesis
          unfolding True well_formed_object_def hg2 using wg by (simp del: fun_upd_apply)
      qed
    qed
    moreover have "singleLevel_spec (h ! g) ?b = Inr (clear_caches (?h2 ! length h))"
      using g ss(1) by (simp add: nth_append del: fun_upd_apply)
    moreover have "\<forall>p<length h. clear_caches (?h2 ! p) = clear_caches (h ! p)"
      using core2 core1 by (simp add: nth_append del: fun_upd_apply)
    ultimately show ?thesis
      using run g by (simp del: fun_upd_apply)
  qed
qed

text \<open>
  Claim C8. When the specification is single-level and no reversal is asked for,
  \<open>singleLevelGrouping\<close> returns the reference \<open>this\<close> itself and leaves the heap as
  it is. Otherwise, on a well-formed heap, it returns another object, with exactly
  one level; the dimensions of that level are the dimensions of all levels of \<open>this\<close>,
  in level order and then in the order within the level, each rebuilt with its order
  flag inverted when the \<^verbatim>\<open>reverse\<close> option is true and taken as it is otherwise; the
  flattening mode is that of \<open>this\<close>.
\<close>

theorem singleLevelGrouping_result:
  "(isSingleLevel (h ! this) \<and> \<not> kw_reverse keyArgs \<longrightarrow>
      singleLevelGrouping h this keyArgs = (Inr this, h)) \<and>
   (well_formed_heap h \<and> this < length h \<and> \<not> (isSingleLevel (h ! this) \<and> \<not> kw_reverse keyArgs) \<longrightarrow>
      (\<exists>r h' level.
         singleLevelGrouping h this keyArgs = (Inr r, h') \<and> r < length h' \<and> r \<noteq> this \<and>
         levels (h' ! r) = [level] \<and> depth (h' ! r) = 1 \<and> isSingleLevel (h' ! r) \<and>
         level_dimensions level =
           (if kw_reverse keyArgs
            then map (\<lambda>d. new_GroupingDimensionSpec (dim_type d) (\<not> dim_reverse d))
                   (concat (map level_dimensions (levels (h ! this))))
            else concat (map level_dimensions (levels (h ! this)))) \<and>
         map dim_type (level_dimensions level) = map dim_type (dimensions (h ! this)) \<and>
         map dim_reverse (level_dimensions level) =
           map (\<lambda>d. dim_reverse d \<noteq> kw_reverse keyArgs) (dimensions (h ! this)) \<and>
         flatteningMode (h' ! r) = flatteningMode (h ! this)))"
proof (intro conjI impI)
  assume "isSingleLevel (h ! this) \<and> \<not> kw_reverse keyArgs"
  then show "singleLevelGrouping h this keyArgs = (Inr this, h)"
    by (simp add: singleLevelGrouping_def)
next
  assume a: "well_formed_heap h \<and> this < length h \<and>
    \<not> (isSingleLevel (h ! this) \<and> \<not> kw_reverse keyArgs)"
  let ?b = "kw_reverse keyArgs"
  let ?g = "h ! this"
  from a have wf: "well_formed_heap h" and g: "this < length h"
    and other: "\<not> (isSingleLevel ?g \<and> \<not> ?b)"
    by simp_all
  from singleLevelGrouping_well_formed [OF wf g other] obtain r h' where
    run: "singleLevelGrouping h this keyArgs = (Inr r, h')" and r: "this < r" "r < length h'"
    and built: "singleLevel_spec ?g ?b = Inr (clear_caches (h' ! r))"
    by blast
  from wf g have wg: "well_formed_spec ?g"
    by (simp add: well_formed_heap_def well_formed_object_def)
  let ?level = "new_GroupingLevelSpec (singleLevel_dimSpecs ?g ?b)"
  let ?o = "constructed_spec (spec_type ?g) [?level] (flatteningMode ?g) []"
  have c: "clear_caches (h' ! r) = ?o"
    using built singleLevel_spec_well_formed(1) [OF wg, of ?b] by simp
  have "levels (clear_caches (h' ! r)) = [?level]" "depth (clear_caches (h' ! r)) = 1"
    "isSingleLevel (clear_caches (h' ! r))"
    "flatteningMode (clear_caches (h' ! r)) = flatteningMode ?g"
    unfolding c by simp_all
  then have fields: "levels (h' ! r) = [?level]" "depth (h' ! r) = 1" "isSingleLevel (h' ! r)"
    "flatteningMode (h' ! r) = flatteningMode ?g"
    by simp_all
  have dims: "level_dimensions ?level =
      (if ?b then map (\<lambda>d. new_GroupingDimensionSpec (dim_type d) (\<not> dim_reverse d))
                   (concat (map level_dimensions (levels ?g)))
       else concat (map level_dimensions (levels ?g)))"
    by (simp add: singleLevel_dimSpecs_def dimensions_def)
  have types: "map dim_type (level_dimensions ?level) = map dim_type (dimensions ?g)"
    by (simp add: singleLevel_dimSpecs_def new_GroupingDimensionSpec_def comp_def)
  have flags: "map dim_reverse (level_dimensions ?level) =
      map (\<lambda>d. dim_reverse d \<noteq> ?b) (dimensions ?g)"
    by (simp add: singleLevel_dimSpecs_def new_GroupingDimensionSpec_def comp_def)
  have ne: "r \<noteq> this" using r(1) by simp
  have one: "depth (h' ! r) = 1" using fields(2) by simp
  from run r(2) ne fields(1) one fields(3) dims types flags fields(4)
  show "\<exists>r h' level.
         singleLevelGrouping h this keyArgs = (Inr r, h') \<and> r < length h' \<and> r \<noteq> this \<and>
         levels (h' ! r) = [level] \<and> depth (h' ! r) = 1 \<and> isSingleLevel (h' ! r) \<and>
         level_dimensions level =
           (if kw_reverse keyArgs
            then map (\<lambda>d. new_GroupingDimensionSpec (dim_type d) (\<not> dim_reverse d))
                   (concat (map level_dimensions (levels (h ! this))))
            else concat (map level_dimensions (levels (h ! this)))) \<and>
         map dim_type (level_dimensions level) = map dim_type (dimensions (h ! this)) \<and>
         map dim_reverse (level_dimensions level) =
           map (\<lambda>d. dim_reverse d \<noteq> kw_reverse keyArgs) (dimensions (h ! this)) \<and>
         flatteningMode (h' ! r) = flatteningMode (h ! this)"
    by blast
qed

lemma example_dimension_ids:
  "map dim_id (map (\<lambda>d. new_GroupingDimensionSpec (dim_type d) (\<not> dim_reverse d))
     (concat (map level_dimensions [series_level, category_level])))
   = [''series1:0'', ''series2:1'', ''category:0'']"
  by (simp add: series_level_def category_level_def series_dimensions_def
        new_GroupingLevelSpec_def new_GroupingDimensionSpec_def number_dimension_def)

theorem singleLevelGrouping_result_witness:
  "\<exists>r h' level.
     singleLevelGrouping example_heap 0
       \<lparr> kw_flatteningMode = None, kw_flattenRootLabel = None, kw_reverse = True \<rparr> = (Inr r, h') \<and>
     r \<noteq> 0 \<and> levels (h' ! r) = [level] \<and>
     map dim_id (level_dimensions level) = [''series1:0'', ''series2:1'', ''category:0''] \<and>
     singleLevelGrouping h' r no_keyArgs = (Inr r, h')"
proof -
  let ?kw = "\<lparr> kw_flatteningMode = None, kw_flattenRootLabel = None, kw_reverse = True \<rparr>"
  have "well_formed_heap example_heap \<and> 0 < length example_heap \<and>
      \<not> (isSingleLevel (example_heap ! 0) \<and> \<not> kw_reverse ?kw)"
    by (simp add: example_heap_well_formed example_heap_object)
  with singleLevelGrouping_result [of example_heap 0 ?kw]
  obtain r h' level where
    r: "singleLevelGrouping example_heap 0 ?kw = (Inr r, h')" "r \<noteq> 0" "levels (h' ! r) = [level]"
       "isSingleLevel (h' ! r)"
       "level_dimensions level =
          (if kw_reverse ?kw
           then map (\<lambda>d. new_GroupingDimensionSpec (dim_type d) (\<not> dim_reverse d))
                  (concat (map level_dimensions (levels (example_heap ! 0))))
           else concat (map level_dimensions (levels (example_heap ! 0))))"
    by blast
  from r(5) have "level_dimensions level =
      map (\<lambda>d. new_GroupingDimensionSpec (dim_type d) (\<not> dim_reverse d))
        (concat (map level_dimensions [series_level, category_level]))"
    by (simp only: example_heap_object KeyArgs.simps if_True)
  then have ids: "map dim_id (level_dimensions level) = [''series1:0'', ''series2:1'', ''category:0'']"
    by (simp only: example_dimension_ids)
  have "isSingleLevel (h' ! r) \<and> \<not> kw_reverse no_keyArgs"
    using r(4) by (simp add: no_keyArgs_def)
  with singleLevelGrouping_result [of h' r no_keyArgs]
  have again: "singleLevelGrouping h' r no_keyArgs = (Inr r, h')"
    by blast
  show ?thesis
    by (intro exI conjI) (rule r(1), rule r(2), rule r(3), rule ids, rule again)
qed

subsection \<open>Conforming to requested arguments\<close>

text \<open>
  Claim C9. \<open>ensure\<close> with the flattening mode \<^verbatim>\<open>singleLevel\<close> is
  \<open>singleLevelGrouping\<close> with the same arguments. When no flattening mode is asked
  for, or the mode and root label asked for are those of \<open>this\<close>, the result is
  \<open>this\<close>, reversed when \<^verbatim>\<open>reverse\<close> is true. When another mode or root label is
  asked for, on a well-formed heap, the constructor builds a new specification \<open>g\<close>
  over the same levels and type with the new mode and label, and the result is \<open>g\<close>,
  or \<open>reversed\<close> applied to \<open>g\<close> when \<^verbatim>\<open>reverse\<close> is true: the result has the
  mode asked for, and the levels of \<open>this\<close>, reversed when \<^verbatim>\<open>reverse\<close> is true.
\<close>

theorem ensure_flattening_before_reversal:
  "(kw_flatteningMode keyArgs = Some ''singleLevel'' \<longrightarrow>
      ensure h this keyArgs = singleLevelGrouping h this keyArgs) \<and>
   ((truthy_string (kw_flatteningMode keyArgs) = None \<or>
     (kw_flatteningMode keyArgs \<noteq> Some ''singleLevel'' \<and>
      flatteningMode (h ! this) = truthy_string (kw_flatteningMode keyArgs) \<and>
      flattenRootLabel (h ! this) = string_or_empty (kw_flattenRootLabel keyArgs))) \<longrightarrow>
      ensure h this keyArgs = (if kw_reverse keyArgs then reversed h this else (Inr this, h))) \<and>
   (well_formed_heap h \<and> this < length h \<and>
    kw_flatteningMode keyArgs = Some mode \<and> mode \<noteq> [] \<and> mode \<noteq> ''singleLevel'' \<and>
    (flatteningMode (h ! this) \<noteq> Some mode \<or>
     flattenRootLabel (h ! this) \<noteq> string_or_empty (kw_flattenRootLabel keyArgs)) \<longrightarrow>
      (\<exists>g. GroupingSpec_init (Some (levels (h ! this))) (Some (spec_type (h ! this)))
              \<lparr> kw_flatteningMode = Some mode,
                kw_flattenRootLabel = Some (string_or_empty (kw_flattenRootLabel keyArgs)),
                kw_reverse = False \<rparr> = Inr g \<and>
           levels g = levels (h ! this) \<and> flatteningMode g = Some mode \<and>
           flattenRootLabel g = string_or_empty (kw_flattenRootLabel keyArgs) \<and>
           ensure h this keyArgs =
             (if kw_reverse keyArgs then reversed (h @ [g]) (length h)
              else (Inr (length h), h @ [g]))) \<and>
      (\<exists>r h'. ensure h this keyArgs = (Inr r, h') \<and> r < length h' \<and>
           flatteningMode (h' ! r) = Some mode \<and>
           levels (h' ! r) =
             (if kw_reverse keyArgs then reversed_levels (h ! this) else levels (h ! this))))"
proof (intro conjI impI)
  assume "kw_flatteningMode keyArgs = Some ''singleLevel''"
  then show "ensure h this keyArgs = singleLevelGrouping h this keyArgs"
    by (simp add: ensure_def truthy_string_def)
next
  assume "truthy_string (kw_flatteningMode keyArgs) = None \<or>
     (kw_flatteningMode keyArgs \<noteq> Some ''singleLevel'' \<and>
      flatteningMode (h ! this) = truthy_string (kw_flatteningMode keyArgs) \<and>
      flattenRootLabel (h ! this) = string_or_empty (kw_flattenRootLabel keyArgs))"
  then show "ensure h this keyArgs = (if kw_reverse keyArgs then reversed h this else (Inr this, h))"
    by (auto simp: ensure_def truthy_string_def split: option.splits if_splits)
next
  assume a: "well_formed_heap h \<and> this < length h \<and>
    kw_flatteningMode keyArgs = Some mode \<and> mode \<noteq> [] \<and> mode \<noteq> ''singleLevel'' \<and>
    (flatteningMode (h ! this) \<noteq> Some mode \<or>
     flattenRootLabel (h ! this) \<noteq> string_or_empty (kw_flattenRootLabel keyArgs))"
  let ?label = "string_or_empty (kw_flattenRootLabel keyArgs)"
  let ?kw = "\<lparr> kw_flatteningMode = Some mode, kw_flattenRootLabel = Some ?label, kw_reverse = False \<rparr>"
  let ?g = "constructed_spec (spec_type (h ! this)) (levels (h ! this)) (Some mode) ?label"
  from a have wf: "well_formed_heap h" and valid: "this < length h" by simp_all
  then have wt: "well_formed_spec (h ! this)"
    by (simp add: well_formed_heap_def well_formed_object_def)
  note d = well_formed_specD [OF wt]
  have same: "filter (\<lambda>l. level_dimensions l \<noteq> []) (levels (h ! this)) = levels (h ! this)"
    using d(2) by (simp add: filter_id_conv)
  have tm: "truthy_string (Some mode) = Some mode"
    using a by (simp add: truthy_string_def)
  have init: "GroupingSpec_init (Some (levels (h ! this))) (Some (spec_type (h ! this))) ?kw = Inr ?g"
    using GroupingSpec_init_retained [of "levels (h ! this)" "spec_type (h ! this)" ?kw] d(1)
    by (simp add: same tm)
  have run: "ensure h this keyArgs =
      (if kw_reverse keyArgs then reversed (h @ [?g]) (length h) else (Inr (length h), h @ [?g]))"
    using a init by (auto simp: ensure_def truthy_string_def new_GroupingSpec_def)
  have wg: "well_formed_spec ?g"
    using constructed_well_formed [OF d(1) d(2), of "spec_type (h ! this)" "Some mode" ?label]
    by (simp add: tm)
  have wf': "well_formed_heap (h @ [?g])"
    using wf wg by (intro append_well_formed) simp_all
  show "\<exists>g. GroupingSpec_init (Some (levels (h ! this))) (Some (spec_type (h ! this))) ?kw = Inr g \<and>
           levels g = levels (h ! this) \<and> flatteningMode g = Some mode \<and>
           flattenRootLabel g = ?label \<and>
           ensure h this keyArgs =
             (if kw_reverse keyArgs then reversed (h @ [g]) (length h)
              else (Inr (length h), h @ [g]))"
    using init run by (intro exI [of _ ?g]) simp
  show "\<exists>r h'. ensure h this keyArgs = (Inr r, h') \<and> r < length h' \<and>
           flatteningMode (h' ! r) = Some mode \<and>
           levels (h' ! r) =
             (if kw_reverse keyArgs then reversed_levels (h ! this) else levels (h ! this))"
  proof (cases "kw_reverse keyArgs")
    case False
    with run show ?thesis by simp
  next
    case True
    have "length h < length (h @ [?g])" by simp
    from reversed_well_formed [OF wf' this] obtain r h' where
      r: "reversed (h @ [?g]) (length h) = (Inr r, h')" "r < length h'"
         "reversed_spec ((h @ [?g]) ! length h) = Inr (clear_caches (h' ! r))"
      by blast
    have "clear_caches (h' ! r) =
        constructed_spec (spec_type ?g) (reversed_levels ?g) (flatteningMode ?g) []"
      using r(3) reversed_spec_well_formed(1) [OF wg] by simp
    then have "flatteningMode (clear_caches (h' ! r)) = Some mode"
      "levels (clear_caches (h' ! r)) = reversed_levels ?g"
      by simp_all
    then have "flatteningMode (h' ! r) = Some mode" "levels (h' ! r) = reversed_levels (h ! this)"
      by (simp_all add: reversed_levels_def)
    with run True r(1,2) show ?thesis by simp
  qed
qed

theorem ensure_flattening_before_reversal_witness:
  "(\<exists>r h'. ensure example_heap 0
       \<lparr> kw_flatteningMode = Some ''tree-pre'', kw_flattenRootLabel = Some ''Root'',
         kw_reverse = True \<rparr> = (Inr r, h') \<and>
     flatteningMode (h' ! r) = Some ''tree-pre'' \<and>
     levels (h' ! r) = reversed_levels (example_heap ! 0)) \<and>
   ensure example_heap 0
     \<lparr> kw_flatteningMode = Some ''singleLevel'', kw_flattenRootLabel = None, kw_reverse = False \<rparr>
     = singleLevelGrouping example_heap 0
         \<lparr> kw_flatteningMode = Some ''singleLevel'', kw_flattenRootLabel = None,
           kw_reverse = False \<rparr> \<and>
   ensure example_heap 0 no_keyArgs = (Inr 0, example_heap)"
proof -
  let ?kw = "\<lparr> kw_flatteningMode = Some ''tree-pre'', kw_flattenRootLabel = Some ''Root'',
         kw_reverse = True \<rparr>"
  let ?kws = "\<lparr> kw_flatteningMode = Some ''singleLevel'', kw_flattenRootLabel = None,
         kw_reverse = False \<rparr>"
  have "well_formed_heap example_heap \<and> 0 < length example_heap \<and>
    kw_flatteningMode ?kw = Some ''tree-pre'' \<and> ''tree-pre'' \<noteq> [] \<and> ''tree-pre'' \<noteq> ''singleLevel'' \<and>
    (flatteningMode (example_heap ! 0) \<noteq> Some ''tree-pre'' \<or>
     flattenRootLabel (example_heap ! 0) \<noteq> string_or_empty (kw_flattenRootLabel ?kw))"
    by (simp add: example_heap_well_formed example_heap_object)
  with ensure_flattening_before_reversal [of ?kw example_heap 0 "''tree-pre''"]
  have first: "\<exists>r h'. ensure example_heap 0 ?kw = (Inr r, h') \<and>
     flatteningMode (h' ! r) = Some ''tree-pre'' \<and>
     levels (h' ! r) = reversed_levels (example_heap ! 0)"
    by auto
  have "kw_flatteningMode ?kws = Some ''singleLevel''" by simp
  with ensure_flattening_before_reversal [of ?kws example_heap 0 undefined]
  have second: "ensure example_heap 0 ?kws = singleLevelGrouping example_heap 0 ?kws"
    by blast
  have "truthy_string (kw_flatteningMode no_keyArgs) = None"
    by (simp add: no_keyArgs_def truthy_string_def)
  with ensure_flattening_before_reversal [of no_keyArgs example_heap 0 undefined]
  have third: "ensure example_heap 0 no_keyArgs = (Inr 0, example_heap)"
    by (simp add: no_keyArgs_def)
  from first second third show ?thesis by blast
qed

subsection \<open>Every operation keeps the heap well formed\<close>

lemma empty_heap_well_formed: "well_formed_heap []"
  by (simp add: well_formed_heap_def)

lemma new_GroupingSpec_well_formed:
  assumes "well_formed_heap h" and "\<forall>l\<in>set ls. level_dimensions l \<noteq> [] \<longrightarrow> well_formed_level l"
    and "new_GroupingSpec h (Some ls) (Some ty) keyArgs = (result, h')"
  shows "well_formed_heap h'"
proof (cases "GroupingSpec_init (Some ls) (Some ty) keyArgs")
  case (Inl e)
  with assms(1,3) show ?thesis by (simp add: new_GroupingSpec_def)
next
  case (Inr g)
  from init_well_formed [OF Inr assms(2)] have "well_formed_spec g" .
  moreover have "cached_reverseGrouping g = None" "cached_singleLevelGrouping g = None"
    using GroupingSpec_init_Inr(2) [OF Inr] by simp_all
  ultimately have "well_formed_heap (h @ [g])"
    using assms(1) by (intro append_well_formed)
  with Inr assms(3) show ?thesis by (simp add: new_GroupingSpec_def)
qed

lemma map_result_all:
  assumes "\<And>x y. f x = Inr y \<Longrightarrow> P y"
  shows "map_result f xs = Inr ys \<Longrightarrow> \<forall>y\<in>set ys. P y"
proof (induction xs arbitrary: ys)
  case Nil
  then show ?case by simp
next
  case (Cons x xs)
  then show ?case
    using assms by (auto split: sum.splits)
qed

lemma parse_level_well_formed:
  assumes "parse_level ty levelText = Inr l"
  shows "well_formed_level l"
proof -
  from assms obtain dims where d: "groupSpec_parseGroupingLevel levelText ty = Inr dims"
    and l: "l = new_GroupingLevelSpec dims"
    by (auto simp: parse_level_def split: sum.splits)
  have "d = new_GroupingDimensionSpec (dim_type d) (dim_reverse d)"
    if "parse_dimSpec ty f = Inr d" for f d
    using that
    by (auto simp: parse_dimSpec_def Let_def new_GroupingDimensionSpec_def
        split: option.splits sum.splits prod.splits)
  from map_result_all [of "parse_dimSpec ty"
      "\<lambda>d. d = new_GroupingDimensionSpec (dim_type d) (dim_reverse d)", OF this]
  have "\<forall>d\<in>set dims. d = new_GroupingDimensionSpec (dim_type d) (dim_reverse d)"
    using d by (auto simp: groupSpec_parseGroupingLevel_def split: levelText.splits)
  then show ?thesis
    unfolding l by (rule new_level_well_formed)
qed

lemma parse_well_formed:
  assumes "well_formed_heap h" and "parse h text ty = (result, h')"
  shows "well_formed_heap h'"
proof (cases "\<exists>levelSpecs y.
    parse h text ty = new_GroupingSpec h (Some levelSpecs) (Some y) no_keyArgs \<and>
    (\<forall>l\<in>set levelSpecs. well_formed_level l)")
  case True
  then obtain levelSpecs y where
    "new_GroupingSpec h (Some levelSpecs) (Some y) no_keyArgs = (result, h')"
    "\<forall>l\<in>set levelSpecs. well_formed_level l"
    using assms(2) by auto
  with assms(1) show ?thesis
    by (intro new_GroupingSpec_well_formed [of h levelSpecs y no_keyArgs result h']) simp_all
next
  case False
  have "h' = h"
  proof (rule ccontr)
    assume "h' \<noteq> h"
    with assms(2) obtain y levels levelSpecs where
      "ty = Some y" "map_result (parse_level y) levels = Inr levelSpecs"
      "parse h text ty = new_GroupingSpec h (Some levelSpecs) (Some y) no_keyArgs"
      by (auto simp: parse_def Let_def split: option.splits if_splits sum.splits)
    moreover from this(2) have "\<forall>l\<in>set levelSpecs. well_formed_level l"
      by (rule map_result_all [of "parse_level y" well_formed_level, rotated])
        (rule parse_level_well_formed)
    ultimately show False using False by blast
  qed
  with assms(1) show ?thesis by simp
qed

lemma reversed_keeps_well_formed:
  assumes "well_formed_heap h" "this < length h" "reversed h this = (result, h')"
  shows "well_formed_heap h'"
  using reversed_well_formed [OF assms(1,2)] assms(3) by auto

lemma singleLevelGrouping_keeps_well_formed:
  assumes "well_formed_heap h" "this < length h" "singleLevelGrouping h this keyArgs = (result, h')"
  shows "well_formed_heap h'"
proof (cases "isSingleLevel (h ! this) \<and> \<not> kw_reverse keyArgs")
  case True
  with assms(1,3) show ?thesis by (simp add: singleLevelGrouping_def)
next
  case False
  from singleLevelGrouping_well_formed [OF assms(1,2) False] assms(3) show ?thesis by auto
qed

lemma ensure_keeps_well_formed:
  assumes wf: "well_formed_heap h" and valid: "this < length h"
    and run: "ensure h this keyArgs = (result, h')"
  shows "well_formed_heap h'"
proof -
  have last: "well_formed_heap h2"
    if "well_formed_heap h1" "g < length h1"
       "(if kw_reverse keyArgs then reversed h1 g else (Inr g, h1)) = (result, h2)" for h1 g h2
    using that reversed_keeps_well_formed [of h1 g result h2] by (auto split: if_splits)
  show ?thesis
  proof (cases "truthy_string (kw_flatteningMode keyArgs)")
    case None
    with run have "(if kw_reverse keyArgs then reversed h this else (Inr this, h)) = (result, h')"
      by (simp add: ensure_def)
    with wf valid show ?thesis by (rule last)
  next
    case (Some mode)
    show ?thesis
    proof (cases "mode = ''singleLevel''")
      case True
      with Some run have "singleLevelGrouping h this keyArgs = (result, h')"
        by (simp add: ensure_def)
      with wf valid show ?thesis by (rule singleLevelGrouping_keeps_well_formed)
    next
      case False
      let ?label = "string_or_empty (kw_flattenRootLabel keyArgs)"
      show ?thesis
      proof (cases "flatteningMode (h ! this) \<noteq> Some mode \<or> flattenRootLabel (h ! this) \<noteq> ?label")
        case same: False
        with Some False run
        have "(if kw_reverse keyArgs then reversed h this else (Inr this, h)) = (result, h')"
          by (simp add: ensure_def)
        with wf valid show ?thesis by (rule last)
      next
        case True
        let ?kw = "\<lparr> kw_flatteningMode = Some mode, kw_flattenRootLabel = Some ?label,
                     kw_reverse = False \<rparr>"
        from wf valid have wt: "well_formed_spec (h ! this)"
          by (simp add: well_formed_heap_def well_formed_object_def)
        note d = well_formed_specD [OF wt]
        from d(1,2) have "\<exists>l\<in>set (levels (h ! this)). level_dimensions l \<noteq> []"
          by (cases "levels (h ! this)") auto
        from GroupingSpec_init_succeeds [OF this] obtain g where
          g: "GroupingSpec_init (Some (levels (h ! this))) (Some (spec_type (h ! this))) ?kw = Inr g"
          by blast
        then have new: "new_GroupingSpec h (Some (levels (h ! this))) (Some (spec_type (h ! this))) ?kw
            = (Inr (length h), h @ [g])"
          by (simp add: new_GroupingSpec_def)
        have wf1: "well_formed_heap (h @ [g])"
          using wf d(2) new by (intro new_GroupingSpec_well_formed [OF _ _ new]) simp_all
        from Some False True run new
        have "(if kw_reverse keyArgs then reversed (h @ [g]) (length h)
               else (Inr (length h), h @ [g])) = (result, h')"
          by (simp add: ensure_def)
        with wf1 show ?thesis by (intro last [of "h @ [g]" "length h" h']) simp_all
      qed
    qed
  qed
qed

lemma dimensionNames_keeps_well_formed:
  assumes wf: "well_formed_heap h" and valid: "this < length h"
    and run: "dimensionNames h this = (names, h')"
  shows "well_formed_heap h'"
proof (cases "cached_dimNames (h ! this)")
  case (Some ns)
  with run wf show ?thesis by (simp add: dimensionNames_def)
next
  case None
  let ?g = "(h ! this)\<lparr> cached_dimNames := Some (map dim_name (dimensions (h ! this))) \<rparr>"
  from None run have h': "h' = h[this := ?g]"
    by (auto simp: dimensionNames_def Let_def)
  have core: "\<forall>p<length h. clear_caches (h' ! p) = clear_caches (h ! p)"
    unfolding h' using valid by (auto simp: nth_list_update)
  show ?thesis
    unfolding well_formed_heap_def
  proof (intro allI impI)
    fix q assume "q < length h'"
    then have q: "q < length h" by (simp add: h')
    with wf have "well_formed_object h q" by (simp add: well_formed_heap_def)
    then show "well_formed_object h' q"
      using q
    proof (rule well_formed_object_frame)
      show "length h \<le> length h'" by (simp add: h')
      show "\<forall>p<length h. clear_caches (h' ! p) = clear_caches (h ! p)" by (rule core)
      show "cached_reverseGrouping (h' ! q) = cached_reverseGrouping (h ! q)"
        unfolding h' using valid by (cases "q = this") simp_all
      show "cached_singleLevelGrouping (h' ! q) = cached_singleLevelGrouping (h ! q)"
        unfolding h' using valid by (cases "q = this") simp_all
    qed
  qed
qed

section \<open>The parser\<close>

subsection \<open>Splitting what was joined\<close>

lemma clean_Cons: "clean c (x # f) \<Longrightarrow> clean c f"
  by (auto simp: clean_def split: if_splits)

lemma dropWhile_space_append:
  "list_all isSpace a \<Longrightarrow> dropWhile isSpace (a @ s) = dropWhile isSpace s"
  by (induction a) auto

lemma clean_no_sep:
  assumes "clean c (x # f)"
  shows "\<not> sep_matches c ((x # f) @ rest)"
proof -
  have "\<exists>y ys. dropWhile isSpace (g @ rest) = y # ys \<and> y \<in> set g"
    if "g \<noteq> []" "\<not> isSpace (last g)" for g
    using that
  proof (induction g)
    case Nil
    then show ?case by simp
  next
    case (Cons z g)
    show ?case
    proof (cases "isSpace z")
      case False
      then show ?thesis by simp
    next
      case True
      with Cons.prems have "g \<noteq> []" by auto
      with Cons True show ?thesis by auto
    qed
  qed
  from this [of "x # f"] assms obtain y ys where
    "dropWhile isSpace ((x # f) @ rest) = y # ys" "y \<in> set (x # f)"
    by (auto simp: clean_def)
  with assms show ?thesis
    by (auto simp: sep_matches_def clean_def)
qed

lemma split_loop_sep:
  "sep_matches c s \<Longrightarrow> split_loop c cur s = cur # split_loop c [] (after_sep s)"
  by (subst split_loop.simps) simp

lemma split_loop_step:
  "\<not> sep_matches c (x # s) \<Longrightarrow> split_loop c cur (x # s) = split_loop c (cur @ [x]) s"
  by (subst split_loop.simps) simp

lemma split_loop_fragment:
  assumes "clean c f" "list_all isSpace a" "\<not> isSpace c"
  shows "split_loop c cur (f @ a @ c # rest) = (cur @ f) # split_loop c [] (dropWhile isSpace rest)"
  using assms(1)
proof (induction f arbitrary: cur)
  case Nil
  have d: "dropWhile isSpace (a @ c # rest) = c # rest"
    using assms(2,3) by (simp add: dropWhile_space_append)
  then have "sep_matches c (a @ c # rest)" "after_sep (a @ c # rest) = dropWhile isSpace rest"
    by (simp_all add: sep_matches_def after_sep_def)
  then show ?case
    by (simp add: split_loop_sep)
next
  case (Cons x f)
  from clean_no_sep [OF Cons.prems, of "a @ c # rest"]
  have "split_loop c cur ((x # f) @ a @ c # rest) = split_loop c (cur @ [x]) (f @ a @ c # rest)"
    by (simp add: split_loop_step)
  also have "\<dots> = ((cur @ [x]) @ f) # split_loop c [] (dropWhile isSpace rest)"
    using Cons.prems by (intro Cons.IH) (rule clean_Cons)
  finally show ?case by simp
qed

lemma split_loop_last:
  "clean c f \<Longrightarrow> split_loop c cur f = [cur @ f]"
proof (induction f arbitrary: cur)
  case Nil
  then show ?case
    by (subst split_loop.simps) (simp add: sep_matches_def)
next
  case (Cons x f)
  from clean_no_sep [OF Cons.prems, of "[]"]
  have "split_loop c cur (x # f) = split_loop c (cur @ [x]) f"
    by (simp add: split_loop_step)
  also have "\<dots> = [(cur @ [x]) @ f]"
    using Cons.prems by (intro Cons.IH) (rule clean_Cons)
  finally show ?case by simp
qed

lemma split_loop_dropWhile:
  assumes "s = [] \<or> \<not> isSpace (hd s) \<or> sep_matches c s"
  shows "split_loop c cur (dropWhile isSpace s) = split_loop c cur s"
proof (cases "s = [] \<or> \<not> isSpace (hd s)")
  case True
  then have "dropWhile isSpace s = s" by (cases s) auto
  then show ?thesis by simp
next
  case False
  with assms have m: "sep_matches c s" by simp
  then have "sep_matches c (dropWhile isSpace s)"
    by (simp add: sep_matches_def)
  moreover have "after_sep (dropWhile isSpace s) = after_sep s"
    by (simp add: after_sep_def)
  ultimately show ?thesis
    using m by (simp add: split_loop_sep)
qed

text \<open>Fragments that a separator of the form \<open>a @ [c] @ b\<close> joins are split apart again.\<close>


lemma join_start:
  assumes "\<forall>f\<in>set fs. fragment c f" "list_all isSpace a" "\<not> isSpace c"
  shows "join (a @ c # b) fs = [] \<or> \<not> isSpace (hd (join (a @ c # b) fs)) \<or>
         sep_matches c (join (a @ c # b) fs)"
proof (cases fs)
  case Nil
  then show ?thesis by simp
next
  case (Cons f gs)
  show ?thesis
  proof (cases gs)
    case Nil
    with Cons assms(1) show ?thesis by (auto simp: fragment_def)
  next
    case (Cons g gs')
    show ?thesis
    proof (cases "f = []")
      case True
      have "dropWhile isSpace (a @ c # b @ join (a @ c # b) (g # gs')) = c # b @ join (a @ c # b) (g # gs')"
        using assms(2,3) by (simp add: dropWhile_space_append)
      then show ?thesis
        using True \<open>fs = f # gs\<close> Cons by (simp add: sep_matches_def)
    next
      case False
      with assms(1) \<open>fs = f # gs\<close> have "\<not> isSpace (hd f)" by (simp add: fragment_def)
      with False show ?thesis
        using \<open>fs = f # gs\<close> Cons by simp
    qed
  qed
qed

lemma split_loop_join:
  assumes "list_all isSpace a" "list_all isSpace b" "\<not> isSpace c"
  shows "fs \<noteq> [] \<Longrightarrow> clean c (hd fs) \<Longrightarrow> \<forall>f\<in>set (tl fs). fragment c f \<Longrightarrow>
         split_loop c cur (join (a @ c # b) fs) = (cur @ hd fs) # tl fs"
proof (induction fs arbitrary: cur)
  case Nil
  then show ?case by simp
next
  case (Cons f gs)
  show ?case
  proof (cases gs)
    case Nil
    with Cons.prems show ?thesis by (simp add: split_loop_last)
  next
    case (Cons g gs')
    let ?J = "join (a @ c # b) gs"
    have fr: "\<forall>f\<in>set gs. fragment c f" using Cons.prems(3) by simp
    have "split_loop c cur (join (a @ c # b) (f # gs)) = split_loop c cur (f @ a @ c # (b @ ?J))"
      using Cons by simp
    also have "\<dots> = (cur @ f) # split_loop c [] (dropWhile isSpace (b @ ?J))"
      using Cons.prems(2) assms by (intro split_loop_fragment) simp_all
    also have "dropWhile isSpace (b @ ?J) = dropWhile isSpace ?J"
      using assms(2) by (rule dropWhile_space_append)
    also have "split_loop c [] (dropWhile isSpace ?J) = split_loop c [] ?J"
      using join_start [OF fr assms(1,3)] by (rule split_loop_dropWhile)
    also have "split_loop c [] ?J = ([] @ hd gs) # tl gs"
      using Cons fr by (intro Cons.IH) (simp_all add: fragment_def)
    finally show ?thesis
      using Cons by simp
  qed
qed

lemma split_join:
  assumes "list_all isSpace a" "list_all isSpace b" "\<not> isSpace c"
    and "fs \<noteq> []" "\<forall>f\<in>set fs. fragment c f"
  shows "split c (join (a @ c # b) fs) = fs"
proof -
  from assms(4) obtain f gs where fs: "fs = f # gs" by (cases fs) auto
  with assms(5) have "clean c (hd fs)" "\<forall>f\<in>set (tl fs). fragment c f"
    by (simp_all add: fragment_def)
  from split_loop_join [OF assms(1-4) this, of "[]"] show ?thesis
    by (simp add: split_def fs)
qed

subsection \<open>The expression for one dimension\<close>

lemma letter_of_toLowerCase:
  assumes "toLowerCase x = l" "97 \<le> (of_char l :: nat)" "(of_char l :: nat) \<le> 122"
  shows "\<not> isSpace x \<and> x \<noteq> CHR '','' \<and> x \<noteq> CHR ''|''"
proof -
  let ?n = "of_char x :: nat"
  have "(65 \<le> ?n \<and> ?n \<le> 90) \<or> (97 \<le> ?n \<and> ?n \<le> 122)"
  proof (cases "(65 \<le> ?n \<and> ?n \<le> 90) \<or> (192 \<le> ?n \<and> ?n \<le> 222 \<and> ?n \<noteq> 215)")
    case True
    then have "l = char_of (?n + 32)"
      using assms(1) by (simp add: toLowerCase_def Let_def)
    then have "(of_char l :: nat) = (?n + 32) mod 256" by simp
    moreover have "?n + 32 < 256" using True by auto
    ultimately have "(of_char l :: nat) = ?n + 32" by simp
    with assms(2,3) show ?thesis by simp
  next
    case False
    then have "l = x" using assms(1) by (auto simp: toLowerCase_def Let_def)
    with assms(2,3) show ?thesis by simp
  qed
  moreover have "(of_char (CHR '','') :: nat) = 44" "(of_char (CHR ''|'') :: nat) = 124"
    by simp_all
  ultimately show ?thesis
    by (auto simp: isSpace_def)
qed

lemma order_token_letters:
  assumes "order_token t"
  shows "t \<noteq> []" and "\<forall>c\<in>set t. \<not> isSpace c \<and> c \<noteq> CHR '','' \<and> c \<noteq> CHR ''|''"
proof -
  from assms show "t \<noteq> []" by (auto simp: order_token_def)
  have "\<forall>l\<in>set (map toLowerCase t). 97 \<le> (of_char l :: nat) \<and> (of_char l :: nat) \<le> 122"
    using assms by (auto simp: order_token_def)
  then show "\<forall>c\<in>set t. \<not> isSpace c \<and> c \<noteq> CHR '','' \<and> c \<noteq> CHR ''|''"
    using letter_of_toLowerCase by auto
qed

lemma takeWhile_space_append:
  "list_all isSpace a \<Longrightarrow> takeWhile isSpace (a @ s) = a @ takeWhile isSpace s"
  by (induction a) auto

lemma match_order_tail_token:
  assumes "e \<noteq> []" "list_all isSpace e" "order_token t"
  shows "match_order_tail (e @ t) = Some (Some t)"
proof -
  note l = order_token_letters [OF assms(3)]
  from l obtain x xs where t: "t = x # xs" "\<not> isSpace x" by (cases t) auto
  have tw: "takeWhile isSpace (e @ t) = e" "dropWhile isSpace (e @ t) = t"
    using assms(2) t by (simp_all add: takeWhile_space_append dropWhile_space_append)
  from assms(3) consider "map toLowerCase t = ''asc''" | "map toLowerCase t = ''desc''"
    by (auto simp: order_token_def)
  then show ?thesis
  proof cases
    case 1
    then have "length (map toLowerCase t) = length ''asc''" by (simp only:)
    then have "length t = 3" by simp
    with 1 assms(1) show ?thesis
      by (simp add: match_order_tail_def tw ci_matches_def)
  next
    case 2
    then have "length (map toLowerCase t) = length ''desc''" by (simp only:)
    then have len: "length t = 4" by simp
    have "map toLowerCase (take 3 t) = take 3 (map toLowerCase t)"
      by (simp add: take_map)
    also have "\<dots> = ''des''" by (simp add: 2)
    finally have "\<not> ci_matches ''asc'' (take 3 t)"
      by (simp add: ci_matches_def)
    with 2 len assms(1) show ?thesis
      by (simp add: match_order_tail_def tw ci_matches_def)
  qed
qed

lemma match_order_tail_inside:
  assumes "\<not> isSpace x"
  shows "match_order_tail (x # s) = None"
  using assms by (simp add: match_order_tail_def)

lemma match_order_tail_end: "match_order_tail [] = Some None"
  by (simp add: match_order_tail_def)

lemma first_some_upt:
  assumes "a \<le> m" "m < b" "\<forall>j. a \<le> j \<and> j < m \<longrightarrow> f j = None" "f m = Some y"
  shows "first_some f [a ..< b] = Some y"
  using assms
proof (induction "m - a" arbitrary: a)
  case 0
  then have "a = m" by simp
  with 0 show ?case by (simp add: upt_conv_Cons)
next
  case (Suc k)
  then have lt: "a < m" by simp
  then have "f a = None" using Suc.prems by simp
  moreover have "first_some f [Suc a ..< b] = Some y"
    using Suc lt by (intro Suc.hyps) auto
  ultimately show ?case
    using lt Suc.prems by (simp add: upt_conv_Cons)
qed

lemma not_space_not_terminator: "\<not> isSpace c \<Longrightarrow> \<not> isLineTerminator c"
  by (auto simp: isSpace_def isLineTerminator_def)

text \<open>The expression on a name, alone or followed by white space and an order token.\<close>

lemma matchDimSpec_name:
  assumes "valid_name n" and rest: "rest = [] \<or> (\<exists>e t. rest = e @ t \<and> e \<noteq> [] \<and> list_all isSpace e \<and> order_token t)"
  shows "groupSpec_matchDimSpec (n @ rest) =
           Some (n, if rest = [] then None else Some (dropWhile isSpace rest))"
proof -
  let ?s = "n @ rest"
  let ?order = "if rest = [] then None else Some (dropWhile isSpace rest)"
  from assms(1) obtain x xs where n: "n = x # xs" "\<not> isSpace x"
    by (cases n) (auto simp: valid_name_def)
  have tail: "match_order_tail rest = Some ?order"
  proof (cases "rest = []")
    case True
    then show ?thesis by (simp add: match_order_tail_end)
  next
    case False
    with rest obtain e t where r: "rest = e @ t" "e \<noteq> []" "list_all isSpace e" "order_token t"
      by blast
    from order_token_letters [OF r(4)] have "dropWhile isSpace t = t" by (cases t) auto
    with r have "dropWhile isSpace rest = t" by (simp add: dropWhile_space_append)
    with False r match_order_tail_token [OF r(2,3,4)] show ?thesis by simp
  qed
  have nolt: "list_all (\<lambda>c. \<not> isLineTerminator c) (take j n)" for j
    using assms(1) not_space_not_terminator
    by (auto simp: valid_name_def list_all_iff dest: in_set_takeD)
  have before: "match_at ?s 0 j = None" if "1 \<le> j" "j < length n" for j
  proof -
    from that have "drop j ?s = n ! j # drop (Suc j) n @ rest"
      by (simp add: Cons_nth_drop_Suc)
    moreover have "\<not> isSpace (n ! j)"
      using assms(1) that by (simp add: valid_name_def)
    ultimately have "match_order_tail (drop (0 + j) ?s) = None"
      by (simp add: match_order_tail_inside)
    then show ?thesis
      by (simp add: match_at_def Let_def)
  qed
  have at: "match_at ?s 0 (length n) = Some (n, ?order)"
    using tail nolt [of "length n"] by (simp add: match_at_def Let_def)
  have inner: "first_some (\<lambda>j. match_at ?s 0 j) [1 ..< Suc (length ?s - 0)] = Some (n, ?order)"
  proof (rule first_some_upt [where m = "length n"])
    show "1 \<le> length n" using n by simp
    show "length n < Suc (length ?s - 0)" by simp
    show "\<forall>j. 1 \<le> j \<and> j < length n \<longrightarrow> match_at ?s 0 j = None" using before by simp
    show "match_at ?s 0 (length n) = Some (n, ?order)" by (rule at)
  qed
  have "takeWhile isSpace ?s = []"
    using n by simp
  then have outer: "rev [0 ..< Suc (length (takeWhile isSpace ?s))] = [0]"
    by simp
  have "groupSpec_matchDimSpec ?s =
      first_some (\<lambda>i. first_some (\<lambda>j. match_at ?s i j) [1 ..< Suc (length ?s - i)]) [0]"
    unfolding groupSpec_matchDimSpec_def outer ..
  also have "\<dots> = Some (n, ?order)"
    by (subst first_some.simps, subst inner) (simp only: option.case)
  finally show ?thesis .
qed

subsection \<open>Rendered texts\<close>

lemma separators_not_space: "\<not> isSpace (CHR '','')" "\<not> isSpace (CHR ''|'')"
  by (simp_all add: isSpace_def)

lemma space_not_separator: "list_all isSpace e \<Longrightarrow> CHR '','' \<notin> set e \<and> CHR ''|'' \<notin> set e"
  using separators_not_space by (auto simp: list_all_iff)

text \<open>A rendered dimension is a fragment for both separators, and empty only when absent.\<close>

lemma render_dimension_fragment:
  assumes "well_formed_text d" "list_all isSpace e"
  shows "fragment (CHR ''|'') (render_dimension e d)" "fragment (CHR '','') (render_dimension e d)"
    "render_dimension e d = [] \<longleftrightarrow> d = None"
proof -
  have name: "fragment c n \<and> n \<noteq> []" if "valid_name n" "c = CHR '','' \<or> c = CHR ''|''" for n c
  proof -
    from that(1) obtain x xs where "n = x # xs" by (cases n) (auto simp: valid_name_def)
    moreover from that(1) have "\<not> isSpace (last n)" "\<not> isSpace (hd n)"
      by (simp_all add: valid_name_def)
    ultimately show ?thesis
      using that by (auto simp: fragment_def clean_def valid_name_def)
  qed
  have both: "fragment c (n @ e @ t) \<and> n @ e @ t \<noteq> []"
    if "valid_name n" "order_token t" "c = CHR '','' \<or> c = CHR ''|''" for n t c
  proof -
    note l = order_token_letters [OF that(2)]
    from name [OF that(1,3)] have n: "n \<noteq> []" "\<not> isSpace (hd n)" "c \<notin> set n"
      by (auto simp: fragment_def clean_def)
    have "last (n @ e @ t) = last t" using l(1) by simp
    moreover have "\<not> isSpace (last t)" using l by simp
    moreover have "c \<notin> set (n @ e @ t)"
      using n(3) l(2) space_not_separator [OF assms(2)] that(3) by auto
    ultimately show ?thesis
      using n by (simp add: fragment_def clean_def)
  qed
  show "fragment (CHR ''|'') (render_dimension e d)" "fragment (CHR '','') (render_dimension e d)"
    "render_dimension e d = [] \<longleftrightarrow> d = None"
  proof (atomize (full), cases d)
    case None
    then show "fragment (CHR ''|'') (render_dimension e d) \<and>
        fragment (CHR '','') (render_dimension e d) \<and> (render_dimension e d = [] \<longleftrightarrow> d = None)"
      by (simp add: render_dimension_def fragment_def clean_def)
  next
    case (Some nt)
    obtain n tok where nt: "nt = (n, tok)" by (cases nt)
    show "fragment (CHR ''|'') (render_dimension e d) \<and>
        fragment (CHR '','') (render_dimension e d) \<and> (render_dimension e d = [] \<longleftrightarrow> d = None)"
    proof (cases tok)
      case None
      with Some nt assms(1) have v: "valid_name n" and r: "render_dimension e d = n"
        by (simp_all add: well_formed_text_def render_dimension_def)
      from name [OF v, of "CHR ''|''"] name [OF v, of "CHR '',''"] show ?thesis
        unfolding r using Some by simp
    next
      case (Some t)
      with \<open>d = Some nt\<close> nt assms(1) have v: "valid_name n" "order_token t"
        and r: "render_dimension e d = n @ e @ t"
        by (simp_all add: well_formed_text_def render_dimension_def)
      from both [OF v, of "CHR ''|''"] both [OF v, of "CHR '',''"] show ?thesis
        unfolding r using \<open>d = Some nt\<close> by simp
    qed
  qed
qed

text \<open>Joining fragments with a visible character gives a fragment for another separator.\<close>

lemma join_fragment:
  assumes "\<not> isSpace p" "p \<noteq> c"
  shows "\<forall>f\<in>set fs. fragment c f \<Longrightarrow> fragment c (join [p] fs)"
proof (induction "[p]" fs rule: join.induct)
  case 1
  then show ?case by (simp add: fragment_def clean_def)
next
  case (2 x)
  then show ?case by simp
next
  case (3 x y ys)
  then have J: "fragment c (join [p] (y # ys))" and x: "fragment c x" by simp_all
  let ?J = "join [p] (y # ys)"
  have "last (x @ p # ?J) = (if ?J = [] then p else last ?J)" by simp
  moreover have "hd (x @ p # ?J) = (if x = [] then p else hd x)" by (cases x) simp_all
  moreover have "join [p] (x # y # ys) = x @ p # ?J" by simp
  moreover have "c \<notin> set x" "c \<notin> set ?J" "x = [] \<or> \<not> isSpace (hd x)"
    "?J = [] \<or> \<not> isSpace (last ?J)"
    using J x by (simp_all add: fragment_def clean_def)
  ultimately have "c \<notin> set (join [p] (x # y # ys))" "\<not> isSpace (last (join [p] (x # y # ys)))"
    "\<not> isSpace (hd (join [p] (x # y # ys)))"
    using assms by (auto simp del: join.simps last_appendR last_append hd_append2 hd_append)
  then show ?case
    by (simp only: fragment_def clean_def) blast
qed

lemma render_level_fragment:
  assumes "\<forall>d\<in>set ds. well_formed_text d" "list_all isSpace e"
  shows "fragment (CHR '','') (render_level e ds)"
  unfolding render_level_def
  using assms separators_not_space
  by (intro join_fragment) (auto simp: render_dimension_fragment)

lemma parse_dimSpec_render:
  assumes "well_formed_text (Some (n, tok))" "e \<noteq> []" "list_all isSpace e"
    and "type_dimensions ty n = Inr (dt n)"
  shows "parse_dimSpec ty (render_dimension e (Some (n, tok))) = Inr (dimSpec_of dt (n, tok))"
proof (cases tok)
  case None
  with assms(1) have v: "valid_name n" by (simp add: well_formed_text_def)
  from matchDimSpec_name [OF v, of "[]"] have "groupSpec_matchDimSpec n = Some (n, None)"
    by simp
  with assms(4) None show ?thesis
    by (simp add: parse_dimSpec_def render_dimension_def dimSpec_of_def string_or_empty_def)
next
  case (Some t)
  with assms(1) have v: "valid_name n" and o: "order_token t"
    by (simp_all add: well_formed_text_def)
  from order_token_letters [OF o] have "dropWhile isSpace t = t" by (cases t) auto
  then have d: "dropWhile isSpace (e @ t) = t"
    using assms(3) by (simp add: dropWhile_space_append)
  have "e @ t = [] \<or> (\<exists>e' t'. e @ t = e' @ t' \<and> e' \<noteq> [] \<and> list_all isSpace e' \<and> order_token t')"
    using assms(2,3) o by blast
  from matchDimSpec_name [OF v this] have "groupSpec_matchDimSpec (n @ e @ t) = Some (n, Some t)"
    using assms(2) by (simp add: d)
  with assms(4) Some show ?thesis
    by (simp add: parse_dimSpec_def render_dimension_def dimSpec_of_def string_or_empty_def)
qed

lemma map_result_dimensions:
  assumes "e \<noteq> []" "list_all isSpace e"
  shows "\<forall>d\<in>set ds. well_formed_text d \<Longrightarrow>
         \<forall>d\<in>set ds. \<forall>n tok. d = Some (n, tok) \<longrightarrow> type_dimensions ty n = Inr (dt n) \<Longrightarrow>
         map_result (parse_dimSpec ty) (filter (\<lambda>f. f \<noteq> []) (map (render_dimension e) ds))
           = Inr (map (dimSpec_of dt) (List.map_filter (\<lambda>d. d) ds))"
proof (induction ds)
  case Nil
  then show ?case by (simp add: List.map_filter_simps)
next
  case (Cons d ds)
  then have IH: "map_result (parse_dimSpec ty) (filter (\<lambda>f. f \<noteq> []) (map (render_dimension e) ds))
           = Inr (map (dimSpec_of dt) (List.map_filter (\<lambda>d. d) ds))"
    by simp
  show ?case
  proof (cases d)
    case None
    then have "render_dimension e d = []" by (simp add: render_dimension_def)
    with None IH show ?thesis by (simp add: List.map_filter_simps)
  next
    case (Some nt)
    obtain n tok where nt: "nt = (n, tok)" by (cases nt)
    have w: "well_formed_text (Some (n, tok))" using Cons.prems(1) Some nt by simp
    have "render_dimension e d \<noteq> []"
      using render_dimension_fragment(3) [of d e] Cons.prems(1) assms(2) Some by simp
    moreover have "parse_dimSpec ty (render_dimension e d) = Inr (dimSpec_of dt (n, tok))"
      using parse_dimSpec_render [OF w assms, of ty dt] Cons.prems(2) Some nt by simp
    ultimately show ?thesis
      using IH Some nt by (simp add: List.map_filter_simps)
  qed
qed

lemma parseGroupingLevel_render:
  assumes "e \<noteq> []" "list_all isSpace e" "\<forall>d\<in>set ds. well_formed_text d"
    and "\<forall>d\<in>set ds. \<forall>n tok. d = Some (n, tok) \<longrightarrow> type_dimensions ty n = Inr (dt n)"
  shows "parse_level ty (LevelString (render_level e ds)) = Inr (levelSpec_of dt ds)"
proof -
  have "filter (\<lambda>f. f \<noteq> []) (split (CHR ''|'') (render_level e ds))
      = filter (\<lambda>f. f \<noteq> []) (map (render_dimension e) ds)"
  proof (cases "ds = []")
    case True
    then show ?thesis by (simp add: render_level_def split_empty)
  next
    case False
    have "split (CHR ''|'') (join ([] @ CHR ''|'' # []) (map (render_dimension e) ds))
        = map (render_dimension e) ds"
      using False assms(2,3) separators_not_space
      by (intro split_join) (simp_all add: render_dimension_fragment)
    then show ?thesis by (simp add: render_level_def)
  qed
  moreover have "map_result (parse_dimSpec ty) (filter (\<lambda>f. f \<noteq> []) (map (render_dimension e) ds))
           = Inr (map (dimSpec_of dt) (List.map_filter (\<lambda>d. d) ds))"
    using assms by (intro map_result_dimensions) simp_all
  ultimately show ?thesis
    by (simp add: parse_level_def groupSpec_parseGroupingLevel_def levelSpec_of_def)
qed

lemma map_result_levels:
  assumes "e \<noteq> []" "list_all isSpace e"
  shows "\<forall>ds\<in>set dss. \<forall>d\<in>set ds. well_formed_text d \<Longrightarrow>
         \<forall>ds\<in>set dss. \<forall>d\<in>set ds. \<forall>n tok. d = Some (n, tok) \<longrightarrow> type_dimensions ty n = Inr (dt n) \<Longrightarrow>
         map_result (parse_level ty) (map LevelString (map (render_level e) dss))
           = Inr (map (levelSpec_of dt) dss)"
proof (induction dss)
  case Nil
  then show ?case by simp
next
  case (Cons ds dss)
  have "parse_level ty (LevelString (render_level e ds)) = Inr (levelSpec_of dt ds)"
    using Cons.prems by (intro parseGroupingLevel_render assms) simp_all
  moreover have "map_result (parse_level ty) (map LevelString (map (render_level e) dss))
           = Inr (map (levelSpec_of dt) dss)"
    using Cons.prems by (intro Cons.IH) simp_all
  ultimately show ?case by simp
qed

lemma parse_render:
  assumes "list_all isSpace a" and "list_all isSpace b" and "e \<noteq> []" and "list_all isSpace e"
    and "\<forall>ds\<in>set dss. \<forall>d\<in>set ds. well_formed_text d"
    and "\<forall>ds\<in>set dss. \<forall>d\<in>set ds. \<forall>n tok. d = Some (n, tok) \<longrightarrow> type_dimensions ty n = Inr (dt n)"
    and "render_spec a b e dss \<noteq> []"
  shows "parse h (Some (SpecString (render_spec a b e dss))) (Some ty) =
           new_GroupingSpec h (Some (map (levelSpec_of dt) dss)) (Some ty) no_keyArgs"
proof -
  from assms(7) have ne: "dss \<noteq> []" by (auto simp: render_spec_def)
  have "split (CHR '','') (join (a @ CHR '','' # b) (map (render_level e) dss))
      = map (render_level e) dss"
    using ne assms(1,2,4,5) separators_not_space
    by (intro split_join) (simp_all add: render_level_fragment)
  then have "split (CHR '','') (render_spec a b e dss) = map (render_level e) dss"
    by (simp add: render_spec_def)
  moreover have "map_result (parse_level ty) (map LevelString (map (render_level e) dss))
           = Inr (map (levelSpec_of dt) dss)"
    using assms(3-6) by (intro map_result_levels) simp_all
  ultimately show ?thesis
    using assms(7) by (simp add: parse_def)
qed

lemma example_text_render:
  "render_spec [] '' '' '' '' example_text = ''series1 asc|series2 desc, category''"
  by (simp add: example_text_def render_spec_def render_level_def render_dimension_def)

lemma example_text_levels:
  "map (levelSpec_of number_dimension) example_text = [series_level, category_level]"
  by (simp add: example_text_def levelSpec_of_def dimSpec_of_def toLowerCase_def
        series_level_def category_level_def series_dimensions_def)

lemma example_names: "valid_name ''series1''" "valid_name ''series2''" "valid_name ''category''"
  by (simp_all add: valid_name_def isSpace_def)

lemma example_text_well_formed: "\<forall>ds\<in>set example_text. \<forall>d\<in>set ds. well_formed_text d"
  by (simp add: example_text_def well_formed_text_def example_names order_token_def
        toLowerCase_def)

lemma example_text_resolved:
  "\<forall>ds\<in>set example_text. \<forall>d\<in>set ds. \<forall>n tok.
     d = Some (n, tok) \<longrightarrow> type_dimensions example_type n = Inr (number_dimension n)"
  by (simp add: example_text_def example_type_def)

lemma example_names_reversed:
  "map (\<lambda>l. map (\<lambda>d. (dim_name d, dim_reverse d)) (level_dimensions l))
     [series_level, category_level]
   = [[(''series1'', False), (''series2'', True)], [(''category'', False)]]"
  by (simp add: series_level_def category_level_def series_dimensions_def
        new_GroupingDimensionSpec_def number_dimension_def)

lemma example_levels_constructed:
  "GroupingSpec_init (Some [series_level, category_level]) (Some example_type) no_keyArgs =
     Inr (constructed_spec example_type [series_level, category_level] None [])"
proof -
  have "level_dimensions series_level \<noteq> []" "level_dimensions category_level \<noteq> []"
    using example_level_ids(3,4) by auto
  then have "filter (\<lambda>l. level_dimensions l \<noteq> []) [series_level, category_level]
      = [series_level, category_level]"
    by simp
  with GroupingSpec_init_retained [of "[series_level, category_level]" example_type no_keyArgs]
  show ?thesis
    by (simp add: no_keyArgs_def truthy_string_def)
qed

text \<open>
  Claim C3. A text rendered from levels of dimensions (white space \<open>a\<close> and \<open>b\<close> around
  the commas, \<open>e\<close> before an order token, names resolved by the complex type) parses to
  the grouping specification that the constructor builds from one level per comma
  fragment, with one dimension per non-empty bar fragment, reversed exactly when its
  order token reads \<^verbatim>\<open>desc\<close> in any case. In particular the text
  \<^verbatim>\<open>series1 asc|series2 desc, category\<close> parses to a new specification of depth 2
  with a composite first level of \<^verbatim>\<open>series1\<close> and the reversed \<^verbatim>\<open>series2\<close>, and a
  second level of \<^verbatim>\<open>category\<close>, not reversed.
\<close>

theorem parse_grammar:
  "(list_all isSpace a \<and> list_all isSpace b \<and> e \<noteq> [] \<and> list_all isSpace e \<and>
    (\<forall>ds\<in>set dss. \<forall>d\<in>set ds. well_formed_text d) \<and>
    (\<forall>ds\<in>set dss. \<forall>d\<in>set ds. \<forall>n tok.
       d = Some (n, tok) \<longrightarrow> type_dimensions ty n = Inr (dt n)) \<and>
    render_spec a b e dss \<noteq> [] \<longrightarrow>
      parse h (Some (SpecString (render_spec a b e dss))) (Some ty) =
        new_GroupingSpec h (Some (map (levelSpec_of dt) dss)) (Some ty) no_keyArgs) \<and>
   (\<exists>g. parse h' (Some (SpecString ''series1 asc|series2 desc, category'')) (Some example_type) =
          (Inr (length h'), h' @ [g]) \<and>
        depth g = 2 \<and> hasCompositeLevels g \<and>
        map (\<lambda>l. map (\<lambda>d. (dim_name d, dim_reverse d)) (level_dimensions l)) (levels g) =
          [[(''series1'', False), (''series2'', True)], [(''category'', False)]])"
proof (intro conjI impI)
  assume "list_all isSpace a \<and> list_all isSpace b \<and> e \<noteq> [] \<and> list_all isSpace e \<and>
    (\<forall>ds\<in>set dss. \<forall>d\<in>set ds. well_formed_text d) \<and>
    (\<forall>ds\<in>set dss. \<forall>d\<in>set ds. \<forall>n tok.
       d = Some (n, tok) \<longrightarrow> type_dimensions ty n = Inr (dt n)) \<and>
    render_spec a b e dss \<noteq> []"
  then show "parse h (Some (SpecString (render_spec a b e dss))) (Some ty) =
        new_GroupingSpec h (Some (map (levelSpec_of dt) dss)) (Some ty) no_keyArgs"
    by (intro parse_render) simp_all
next
  let ?g = "constructed_spec example_type [series_level, category_level] None []"
  have "parse h' (Some (SpecString (render_spec [] '' '' '' '' example_text))) (Some example_type) =
      new_GroupingSpec h' (Some (map (levelSpec_of number_dimension) example_text))
        (Some example_type) no_keyArgs"
    using example_text_well_formed example_text_resolved
    by (intro parse_render) (simp_all add: isSpace_def example_text_render)
  then have run: "parse h' (Some (SpecString ''series1 asc|series2 desc, category''))
      (Some example_type) = (Inr (length h'), h' @ [?g])"
    by (simp add: example_text_render example_text_levels new_GroupingSpec_def
          example_levels_constructed)
  have "depth ?g = 2" by simp
  moreover have "hasCompositeLevels ?g"
    by (simp add: constructed_spec_def example_level_ids)
  moreover have "map (\<lambda>l. map (\<lambda>d. (dim_name d, dim_reverse d)) (level_dimensions l)) (levels ?g) =
          [[(''series1'', False), (''series2'', True)], [(''category'', False)]]"
    by (simp only: constructed_spec_fields example_names_reversed)
  ultimately show "\<exists>g. parse h' (Some (SpecString ''series1 asc|series2 desc, category''))
          (Some example_type) = (Inr (length h'), h' @ [g]) \<and>
        depth g = 2 \<and> hasCompositeLevels g \<and>
        map (\<lambda>l. map (\<lambda>d. (dim_name d, dim_reverse d)) (level_dimensions l)) (levels g) =
          [[(''series1'', False), (''series2'', True)], [(''category'', False)]]"
    using run by (intro exI [of _ ?g] conjI)
qed

lemma spaced_text_render:
  "render_spec [] '' '' ''  '' spaced_text = ''series2  DESC||series1, , category  Asc''"
  by (simp add: spaced_text_def render_spec_def render_level_def render_dimension_def)

lemma spaced_text_well_formed: "\<forall>ds\<in>set spaced_text. \<forall>d\<in>set ds. well_formed_text d"
  by (simp add: spaced_text_def well_formed_text_def example_names order_token_def
        toLowerCase_def char_of_eq_iff)

lemma spaced_text_resolved:
  "\<forall>ds\<in>set spaced_text. \<forall>d\<in>set ds. \<forall>n tok.
     d = Some (n, tok) \<longrightarrow> type_dimensions example_type n = Inr (number_dimension n)"
  by (simp add: spaced_text_def example_type_def)

lemma spaced_text_levels:
  "map (levelSpec_of number_dimension) spaced_text =
     [new_GroupingLevelSpec
        [new_GroupingDimensionSpec (number_dimension ''series2'') True,
         new_GroupingDimensionSpec (number_dimension ''series1'') False],
      new_GroupingLevelSpec [],
      category_level]"
  by (simp add: spaced_text_def levelSpec_of_def dimSpec_of_def toLowerCase_def char_of_eq_iff
        category_level_def)

theorem parse_grammar_witness:
  "\<exists>g. parse [] (Some (SpecString ''series2  DESC||series1, , category  Asc'')) (Some example_type) =
        (Inr 0, [g]) \<and>
      map (\<lambda>l. map (\<lambda>d. (dim_name d, dim_reverse d)) (level_dimensions l)) (levels g) =
        [[(''series2'', True), (''series1'', False)], [(''category'', False)]]"
proof -
  let ?first = "new_GroupingLevelSpec
        [new_GroupingDimensionSpec (number_dimension ''series2'') True,
         new_GroupingDimensionSpec (number_dimension ''series1'') False]"
  let ?g = "constructed_spec example_type [?first, category_level] None []"
  have hyps: "list_all isSpace [] \<and> list_all isSpace '' '' \<and> ''  '' \<noteq> [] \<and> list_all isSpace ''  '' \<and>
    (\<forall>ds\<in>set spaced_text. \<forall>d\<in>set ds. well_formed_text d) \<and>
    (\<forall>ds\<in>set spaced_text. \<forall>d\<in>set ds. \<forall>n tok.
       d = Some (n, tok) \<longrightarrow> type_dimensions example_type n = Inr (number_dimension n)) \<and>
    render_spec [] '' '' ''  '' spaced_text \<noteq> []"
    using spaced_text_well_formed spaced_text_resolved
    by (simp add: isSpace_def spaced_text_render)
  have "parse [] (Some (SpecString (render_spec [] '' '' ''  '' spaced_text))) (Some example_type) =
      new_GroupingSpec [] (Some (map (levelSpec_of number_dimension) spaced_text))
        (Some example_type) no_keyArgs"
    using parse_grammar [of "[]" "'' ''" "''  ''" spaced_text example_type number_dimension "[]" "[]"]
      hyps by blast
  moreover have "filter (\<lambda>l. level_dimensions l \<noteq> []) [?first, new_GroupingLevelSpec [], category_level]
      = [?first, category_level]"
    by (simp add: category_level_def)
  then have "GroupingSpec_init (Some [?first, new_GroupingLevelSpec [], category_level])
      (Some example_type) no_keyArgs = Inr ?g"
    using GroupingSpec_init_retained
      [of "[?first, new_GroupingLevelSpec [], category_level]" example_type no_keyArgs]
    by (simp add: no_keyArgs_def truthy_string_def)
  ultimately have run: "parse [] (Some (SpecString ''series2  DESC||series1, , category  Asc''))
      (Some example_type) = (Inr 0, [?g])"
    by (simp add: spaced_text_render spaced_text_levels new_GroupingSpec_def)
  have "map (\<lambda>l. map (\<lambda>d. (dim_name d, dim_reverse d)) (level_dimensions l)) (levels ?g) =
        [[(''series2'', True), (''series1'', False)], [(''category'', False)]]"
    by (simp add: category_level_def new_GroupingDimensionSpec_def number_dimension_def)
  with run show ?thesis
    by (intro exI [of _ ?g] conjI)
qed

end
